(* ===== verification/Prelude.thy ===== *)
theory Prelude
  imports Main "HOL-Library.Word"
begin

text \<open>
  Shared vocabulary of the development: Rust's machine integers as words, the
  saturating and narrowing operations of the standard library on them, fallible
  results (\<open>anyhow::Result\<close> as a sum whose left side is the error's message), and the
  generic lemmas the component theories rely on.  The collection \<open>u64_nat\<close> holds the
  facts that read a word operation as arithmetic on natural numbers; a component
  proof typically unfolds its definitions and rewrites with this collection.
\<close>

section \<open>Machine integers\<close>

type_synonym u8 = "8 word"
type_synonym u32 = "32 word"
type_synonym u64 = "64 word"
type_synonym u128 = "128 word"
type_synonym i32 = "32 word"
type_synonym i64 = "64 word"

named_theorems u64_nat \<open>word operations read as arithmetic on natural numbers\<close>

abbreviation U64_MAX :: u64 where
  "U64_MAX \<equiv> - 1"

abbreviation u64_max :: nat where
  "u64_max \<equiv> 18446744073709551615"

text \<open>Rust's \<open>saturating_add\<close>, \<open>saturating_sub\<close> and \<open>saturating_mul\<close> on unsigned integers.\<close>

definition sat_add :: "'a::len word \<Rightarrow> 'a word \<Rightarrow> 'a word" where
  "sat_add a b = (if unat a + unat b < 2 ^ LENGTH('a) then a + b else - 1)"

definition sat_sub :: "'a::len word \<Rightarrow> 'a word \<Rightarrow> 'a word" where
  "sat_sub a b = (if b \<le> a then a - b else 0)"

definition sat_mul :: "'a::len word \<Rightarrow> 'a word \<Rightarrow> 'a word" where
  "sat_mul a b = (if unat a * unat b < 2 ^ LENGTH('a) then a * b else - 1)"

text \<open>\<open>u64::try_from(x: u128)\<close>, widening \<open>u128::from\<close> / \<open>u64::from\<close>, and \<open>unwrap_or\<close>.\<close>

definition u64_try_from :: "u128 \<Rightarrow> u64 option" where
  "u64_try_from x = (if unat x < 2 ^ 64 then Some (ucast x) else None)"

definition u128_from :: "u64 \<Rightarrow> u128" where
  "u128_from x = ucast x"

definition u64_from :: "u32 \<Rightarrow> u64" where
  "u64_from x = ucast x"

definition unwrap_or :: "'a \<Rightarrow> 'a option \<Rightarrow> 'a" where
  "unwrap_or d x = (case x of None \<Rightarrow> d | Some y \<Rightarrow> y)"

lemma unwrap_or_simps [simp]:
  "unwrap_or d None = d"
  "unwrap_or d (Some y) = y"
  by (simp_all add: unwrap_or_def)

lemma unat_le_max: "unat (x :: 'a::len word) \<le> 2 ^ LENGTH('a) - 1"
  using unsigned_less [of x, where ?'a = nat] by linarith

lemma unat_u64_le [simp]: "unat (x :: u64) \<le> u64_max"
  using unat_le_max [of x] by simp

lemma unat_minus_one_word: "unat (- 1 :: 'a::len word) = 2 ^ LENGTH('a) - 1"
  by (simp add: unsigned_minus_1_eq_mask mask_eq_exp_minus_1)

lemma unat_U64_MAX [u64_nat]: "unat U64_MAX = u64_max"
  by (simp add: unat_minus_one_word)

lemma unat_sat_add_gen:
  "unat (sat_add a b) = min (unat a + unat b) (2 ^ LENGTH('a) - 1)" for a b :: "'a::len word"
proof (cases "unat a + unat b < 2 ^ LENGTH('a)")
  case True
  then have "unat (a + b) = unat a + unat b"
    using unat_add_lem by blast
  with True show ?thesis by (simp add: sat_add_def)
next
  case False
  then show ?thesis by (simp add: sat_add_def unat_minus_one_word)
qed

lemma unat_sat_mul_gen:
  "unat (sat_mul a b) = min (unat a * unat b) (2 ^ LENGTH('a) - 1)" for a b :: "'a::len word"
proof (cases "unat a * unat b < 2 ^ LENGTH('a)")
  case True
  then have "unat (a * b) = unat a * unat b"
    using unat_mult_lem by blast
  with True show ?thesis by (simp add: sat_mul_def)
next
  case False
  then show ?thesis by (simp add: sat_mul_def unat_minus_one_word)
qed

lemma unat_sat_add [u64_nat]: "unat (sat_add a b) = min (unat a + unat b) u64_max" for a b :: u64
  by (simp add: unat_sat_add_gen)

lemma unat_sat_add32 [u64_nat]:
  "unat (sat_add a b) = min (unat a + unat b) 4294967295" for a b :: u32
  by (simp add: unat_sat_add_gen)

lemma unat_sat_mul [u64_nat]: "unat (sat_mul a b) = min (unat a * unat b) u64_max" for a b :: u64
  by (simp add: unat_sat_mul_gen)

lemma unat_sat_sub [u64_nat]: "unat (sat_sub a b) = unat a - unat b" for a b :: "'a::len word"
  by (simp add: sat_sub_def unat_sub word_le_nat_alt)

lemma unat_u128_from [u64_nat, simp]: "unat (u128_from x) = unat x"
proof -
  have "unat x < 2 ^ 128" by (rule le_less_trans [OF unat_u64_le]) simp
  then show ?thesis by (simp add: u128_from_def unsigned_ucast_eq take_bit_nat_eq_self)
qed

lemma unat_u64_from [u64_nat, simp]: "unat (u64_from x) = unat x"
proof -
  have "unat x < 2 ^ 64" using unsigned_less [of x, where ?'a = nat] by simp
  then show ?thesis by (simp add: u64_from_def unsigned_ucast_eq take_bit_nat_eq_self)
qed

lemma unat_u128_mult [u64_nat]:
  "unat (u128_from a * u128_from b) = unat a * unat b"
proof -
  have "unat a * unat b \<le> u64_max * u64_max"
    by (rule mult_le_mono) simp_all
  also have "u64_max * u64_max < 2 ^ 128" by simp
  finally have "unat (u128_from a) * unat (u128_from b) < 2 ^ LENGTH(128)" by simp
  then show ?thesis by (simp only: unat_mult_lem) simp
qed

lemma unat_u64_try_from_or_max [u64_nat]:
  "unat (unwrap_or U64_MAX (u64_try_from x)) = min (unat x) u64_max"
  by (auto simp: u64_try_from_def unat_U64_MAX unsigned_ucast_eq take_bit_nat_eq_self min_def)

lemma sat_add_zero [simp]: "sat_add a 0 = a" "sat_add 0 a = a" for a :: "'a::len word"
  by (simp_all add: sat_add_def)

lemma word_eqI_unat: "unat a = unat b \<Longrightarrow> a = b" for a b :: "'a::len word"
  by (simp add: word_unat_eq_iff)

lemma sat_add_commute: "sat_add a b = sat_add b a" for a b :: "'a::len word"
  by (simp add: sat_add_def add.commute)

lemma sat_add_assoc: "sat_add (sat_add a b) c = sat_add a (sat_add b c)" for a b c :: u64
  by (rule word_eqI_unat) (simp add: u64_nat)

lemma sat_add_left_commute: "sat_add a (sat_add b c) = sat_add b (sat_add a c)" for a b c :: u64
  by (metis sat_add_assoc sat_add_commute)

section \<open>Fallible results\<close>

text \<open>
  \<open>anyhow::Result<T>\<close>: the error is its \<open>Display\<close> text, which is all the code ever
  looks at (it is logged or embedded into the text of an outer error).
\<close>

type_synonym 'a result = "string + 'a"

abbreviation Ok :: "'a \<Rightarrow> 'a result" where "Ok \<equiv> Inr"
abbreviation Err :: "string \<Rightarrow> 'a result" where "Err \<equiv> Inl"

text \<open>What a call that may panic yields.\<close>

datatype 'a exec = Panicked | Finished 'a

definition is_ok :: "'a result \<Rightarrow> bool" where
  "is_ok r = (case r of Inl _ \<Rightarrow> False | Inr _ \<Rightarrow> True)"

lemma is_ok_simps [simp]: "is_ok (Inr x)" "\<not> is_ok (Inl e)"
  by (simp_all add: is_ok_def)

lemma is_ok_iff: "is_ok r \<longleftrightarrow> (\<exists>x. r = Ok x)"
  by (cases r) auto

text \<open>\<open>Result::ok()\<close>.\<close>

definition result_ok :: "'a result \<Rightarrow> 'a option" where
  "result_ok r = (case r of Inl _ \<Rightarrow> None | Inr x \<Rightarrow> Some x)"

lemma result_ok_simps [simp]: "result_ok (Inr x) = Some x" "result_ok (Inl e) = None"
  by (simp_all add: result_ok_def)

section \<open>Sums of lists of numbers\<close>

lemma min_add_min [simp]:
  "min (min a m + b) m = min (a + b) (m::nat)"
  "min (b + min a m) m = min (b + a) (m::nat)"
  by simp_all

lemma sum_list_unat_fold_sat_add:
  "unat (fold (\<lambda>x acc. sat_add acc x) xs a) = min (unat a + sum_list (map unat xs)) u64_max"
  for xs :: "u64 list"
  by (induction xs arbitrary: a) (simp_all add: u64_nat)

lemma sum_list_le_length_mult: "(\<And>x. x \<in> set xs \<Longrightarrow> f x \<le> (c::nat)) \<Longrightarrow> sum_list (map f xs) \<le> length xs * c"
proof (induction xs)
  case (Cons x xs)
  then have "f x \<le> c" and "sum_list (map f xs) \<le> length xs * c" by simp_all
  then show ?case by simp
qed simp

lemma div_add_div_le: "a div c + b div c \<le> (a + b) div (c::nat)"
  using div_add1_eq [of a b c] by linarith

lemma sum_list_div_le: "sum_list (map (\<lambda>x. f x div c) xs) \<le> sum_list (map f xs) div (c::nat)"
proof (induction xs)
  case (Cons x xs)
  have "f x div c + sum_list (map f xs) div c \<le> (f x + sum_list (map f xs)) div c"
    by (rule div_add_div_le)
  with Cons show ?case by simp
qed simp

end
