(* ===== verification/Ordered_Map.thy ===== *)
theory Ordered_Map
  imports Main
begin

text \<open>
  The standard library's \<open>BTreeMap\<close>, as far as the program uses it: a map kept in
  ascending key order, represented by its entries in iteration order.  The locale
  \<open>ordered_map\<close> is the contract the clients rely on (the Linux provider's table of
  in-flight fences, and the ordered table behind the registry); its clients' lemmas are
  proved once from the laws, and the interpretation \<open>bt\<close> discharges them for the
  representation.
\<close>

section \<open>The contract\<close>

locale ordered_map =
  fixes get :: "'m \<Rightarrow> 'k::linorder \<Rightarrow> 'v option"
    and put :: "'m \<Rightarrow> 'k \<Rightarrow> 'v \<Rightarrow> 'm"
    and del :: "'m \<Rightarrow> 'k \<Rightarrow> 'm"
    and entries :: "'m \<Rightarrow> ('k \<times> 'v) list"
    and inv :: "'m \<Rightarrow> bool"
  assumes get_entries: "inv m \<Longrightarrow> get m k = map_of (entries m) k"
    and get_put: "inv m \<Longrightarrow> get (put m k v) = (get m)(k \<mapsto> v)"
    and get_del: "inv m \<Longrightarrow> get (del m k) = (get m)(k := None)"
    and entries_sorted: "inv m \<Longrightarrow> sorted_wrt (<) (map fst (entries m))"
    and inv_put: "inv m \<Longrightarrow> inv (put m k v)"
    and inv_del: "inv m \<Longrightarrow> inv (del m k)"
begin

lemma keys_distinct: "inv m \<Longrightarrow> distinct (map fst (entries m))"
  using entries_sorted strict_sorted_iff by blast

lemma keys_sorted: "inv m \<Longrightarrow> sorted (map fst (entries m))"
  using entries_sorted strict_sorted_iff by blast

lemma keys_eq_dom: "inv m \<Longrightarrow> set (map fst (entries m)) = dom (get m)"
proof -
  assume "inv m"
  then have "get m = map_of (entries m)" by (auto simp: get_entries)
  then show ?thesis by (simp add: dom_map_of_conv_image_fst)
qed

lemma in_keys_iff: "inv m \<Longrightarrow> k \<in> set (map fst (entries m)) \<longleftrightarrow> get m k \<noteq> None"
  using keys_eq_dom by blast

lemma entries_unique:
  assumes "inv m" and "inv m'" and "get m = get m'"
  shows "entries m = entries m'"
proof -
  have "map_of (entries m) = map_of (entries m')"
    using assms get_entries [of m] get_entries [of m'] by (auto simp: fun_eq_iff)
  then have "set (entries m) = set (entries m')"
    using assms(1,2) by (metis keys_distinct map_of_inject_set)
  then show ?thesis
    using assms(1,2) keys_distinct keys_sorted sorted_distinct_set_unique
    by (metis (no_types, lifting) distinct_map map_sorted_distinct_set_unique inj_on_Un sup.idem)
qed

lemma mem_entries: "inv m \<Longrightarrow> (k, v) \<in> set (entries m) \<longleftrightarrow> get m k = Some v"
  by (simp add: get_entries keys_distinct)

end

section \<open>The representation\<close>

definition bt_new :: "('k \<times> 'v) list" where
  "bt_new = []"

definition bt_get :: "('k \<times> 'v) list \<Rightarrow> 'k \<Rightarrow> 'v option" where
  "bt_get m k = map_of m k"

fun bt_insert :: "('k::linorder \<times> 'v) list \<Rightarrow> 'k \<Rightarrow> 'v \<Rightarrow> ('k \<times> 'v) list" where
  "bt_insert [] k v = [(k, v)]"
| "bt_insert ((k', v') # m) k v =
     (if k < k' then (k, v) # (k', v') # m
      else if k = k' then (k, v) # m
      else (k', v') # bt_insert m k v)"

definition bt_remove :: "('k \<times> 'v) list \<Rightarrow> 'k \<Rightarrow> ('k \<times> 'v) list" where
  "bt_remove m k = filter (\<lambda>(k', _). k' \<noteq> k) m"

definition bt_keys :: "('k \<times> 'v) list \<Rightarrow> 'k list" where
  "bt_keys m = map fst m"

definition bt_inv :: "('k::linorder \<times> 'v) list \<Rightarrow> bool" where
  "bt_inv m = sorted_wrt (<) (map fst m)"

lemma map_of_bt_insert: "map_of (bt_insert m k v) = (map_of m)(k \<mapsto> v)"
  by (induction m k v rule: bt_insert.induct) auto

lemma keys_bt_insert: "fst ` set (bt_insert m k v) = insert k (fst ` set m)"
  by (induction m k v rule: bt_insert.induct) auto

lemma bt_inv_insert: "bt_inv m \<Longrightarrow> bt_inv (bt_insert m k v)"
proof (induction m k v rule: bt_insert.induct)
  case (2 k' v' m k v)
  then show ?case
    using keys_bt_insert [of m k v] by (force simp: bt_inv_def)
qed (simp add: bt_inv_def)

lemma map_of_bt_remove: "map_of (bt_remove m k) = (map_of m)(k := None)"
  unfolding bt_remove_def by (induction m) auto

lemma bt_inv_remove: "bt_inv m \<Longrightarrow> bt_inv (bt_remove m k)"
  unfolding bt_inv_def bt_remove_def by (induction m) auto

interpretation bt: ordered_map bt_get bt_insert bt_remove "\<lambda>m. m" bt_inv
  by unfold_locales
     (auto simp: bt_get_def map_of_bt_insert map_of_bt_remove bt_inv_insert bt_inv_remove
        fun_eq_iff, simp add: bt_inv_def)

lemma bt_inv_new [simp]: "bt_inv bt_new" "bt_inv []"
  by (simp_all add: bt_inv_def bt_new_def)

lemma bt_get_new [simp]: "bt_get bt_new k = None" "bt_get [] k = None"
  by (simp_all add: bt_get_def bt_new_def)

text \<open>Inserting a key above all present keys appends it: what an ordered rebuild relies on.\<close>

lemma bt_insert_append:
  "(\<And>k'. k' \<in> fst ` set m \<Longrightarrow> k' < k) \<Longrightarrow> bt_insert m k v = m @ [(k, v)]"
proof (induction m)
  case (Cons e m)
  then have "fst e < k" and "bt_insert m k v = m @ [(k, v)]" by simp_all
  then show ?case by (cases e) auto
qed simp

end
