(* ===== verification/Registry.thy ===== *)
theory Registry
  imports Prelude Ordered_Map "HOL-Library.Multiset"
begin

text \<open>
  The Amalgafy registry, \<open>src/core/registry.rs\<close>.  The table is a crossbeam
  \<open>SkipMap<u32, AtomicU64>\<close>: the map is third-party code, so its operations are a
  parameter (the record \<open>skip_map_ops\<close>) whose documented behaviour is the locale
  \<open>skip_map\<close>; its values are references to atomic cells, and the cells live in an
  explicit store, because an entry obtained from the table stays usable after the
  table has changed.  This theory holds the operations as one caller performs them,
  with the compare-and-swap loop and its spurious failures; the interleaving of
  several callers is the subject of \<open>Registry_Concurrent\<close>.

  The locale \<open>energy_registry\<close> is the contract the rest of the program relies on: a
  map from process ids to micro-joules that accumulates with saturation.  Every
  registry over a lawful skip map provides it (the \<^theory_text>\<open>sublocale\<close> below).
\<close>

section \<open>The contract of an accumulating registry\<close>

text \<open>The micro-joules a lookup stands for: zero for an untracked process.\<close>

definition uj_of :: "u64 option \<Rightarrow> nat" where
  "uj_of v = (case v of None \<Rightarrow> 0 | Some x \<Rightarrow> unat x)"

lemma uj_of_simps [simp]: "uj_of None = 0" "uj_of (Some x) = unat x"
  by (simp_all add: uj_of_def)

lemma uj_of_le [simp]: "uj_of v \<le> u64_max"
  by (cases v) simp_all

lemma uj_of_eqI: "(v = None \<longleftrightarrow> w = None) \<Longrightarrow> uj_of v = uj_of w \<Longrightarrow> v = w"
  by (cases v; cases w) (auto intro: word_eqI_unat)

text \<open>A sequence of accumulations, in order.\<close>

fun add_all :: "('r \<Rightarrow> u32 \<Rightarrow> u64 \<Rightarrow> 'r \<times> u64) \<Rightarrow> 'r \<Rightarrow> (u32 \<times> u64) list \<Rightarrow> 'r" where
  "add_all add r [] = r"
| "add_all add r ((pid, d) # ps) = add_all add (fst (add r pid d)) ps"

definition sum_for :: "u32 \<Rightarrow> (u32 \<times> u64) list \<Rightarrow> nat" where
  "sum_for pid ps = sum_list (map (\<lambda>(p, d). if p = pid then unat d else 0) ps)"

definition sum_deltas :: "(u32 \<times> u64) list \<Rightarrow> nat" where
  "sum_deltas ps = sum_list (map (\<lambda>(_, d). unat d) ps)"

lemma sum_for_simps [simp]:
  "sum_for pid [] = 0"
  "sum_for pid ((p, d) # ps) = (if p = pid then unat d else 0) + sum_for pid ps"
  "sum_for pid (ps @ qs) = sum_for pid ps + sum_for pid qs"
  by (simp_all add: sum_for_def)

lemma sum_deltas_simps [simp]:
  "sum_deltas [] = 0"
  "sum_deltas ((p, d) # ps) = unat d + sum_deltas ps"
  "sum_deltas (ps @ qs) = sum_deltas ps + sum_deltas qs"
  by (simp_all add: sum_deltas_def)

lemma sum_for_mset_cong: "mset ps = mset qs \<Longrightarrow> sum_for pid ps = sum_for pid qs"
proof -
  let ?f = "\<lambda>(p, d). if p = pid then unat d else 0"
  assume "mset ps = mset qs"
  then have "sum_mset (image_mset ?f (mset ps)) = sum_mset (image_mset ?f (mset qs))" by simp
  then show ?thesis by (simp only: sum_for_def sum_mset_sum_list flip: mset_map)
qed

lemma add_all_append: "add_all add r (ps @ qs) = add_all add (add_all add r ps) qs"
  by (induction add r ps rule: add_all.induct) simp_all

locale energy_registry =
  fixes inv :: "'r \<Rightarrow> bool"
    and val :: "'r \<Rightarrow> u32 \<Rightarrow> u64 option"
    and add :: "'r \<Rightarrow> u32 \<Rightarrow> u64 \<Rightarrow> 'r \<times> u64"
  assumes inv_add: "inv r \<Longrightarrow> inv (fst (add r pid d))"
    and val_add: "inv r \<Longrightarrow>
      val (fst (add r pid d)) = (val r)(pid \<mapsto> sat_add (unwrap_or 0 (val r pid)) d)"
    and ret_add: "inv r \<Longrightarrow> snd (add r pid d) = sat_add (unwrap_or 0 (val r pid)) d"
begin

lemma uj_add:
  assumes "inv r"
  shows "uj_of (val (fst (add r pid d)) p) =
    (if p = pid then min (uj_of (val r pid) + unat d) u64_max else uj_of (val r p))"
  using assms by (cases "val r pid") (auto simp: val_add u64_nat)

lemma inv_add_all: "inv r \<Longrightarrow> inv (add_all add r ps)"
  by (induction ps arbitrary: r) (auto simp: inv_add)

lemma uj_add_all:
  "inv r \<Longrightarrow> uj_of (val (add_all add r ps) p) = min (uj_of (val r p) + sum_for p ps) u64_max"
proof (induction ps arbitrary: r)
  case (Cons x ps)
  obtain pid d where x: "x = (pid, d)" by (cases x)
  have "uj_of (val (add_all add r (x # ps)) p)
      = min (uj_of (val (fst (add r pid d)) p) + sum_for p ps) u64_max"
    using Cons.IH [OF inv_add [OF Cons.prems]] by (simp add: x)
  then show ?case using Cons.prems by (auto simp: x uj_add ac_simps)
qed simp

lemma dom_add_all: "inv r \<Longrightarrow> dom (val (add_all add r ps)) = dom (val r) \<union> fst ` set ps"
proof (induction ps arbitrary: r)
  case (Cons x ps)
  obtain pid d where x: "x = (pid, d)" by (cases x)
  show ?case
    using Cons.IH [OF inv_add [OF Cons.prems]] Cons.prems by (auto simp: x val_add)
qed simp

text \<open>The outcome of a batch does not depend on the order of its accumulations.\<close>

lemma add_all_order_irrelevant:
  assumes "inv r" and "mset ps = mset qs"
  shows "val (add_all add r ps) = val (add_all add r qs)"
proof
  fix p
  have "fst ` set ps = fst ` set qs"
    using assms(2) by (metis set_mset_mset)
  then have "dom (val (add_all add r ps)) = dom (val (add_all add r qs))"
    by (simp add: dom_add_all assms(1))
  then have "(val (add_all add r ps) p = None) = (val (add_all add r qs) p = None)"
    by (metis domIff)
  moreover have "uj_of (val (add_all add r ps) p) = uj_of (val (add_all add r qs) p)"
    using sum_for_mset_cong [OF assms(2)] by (simp add: uj_add_all assms(1))
  ultimately show "val (add_all add r ps) p = val (add_all add r qs) p"
    by (rule uj_of_eqI)
qed

text \<open>Energy is conserved: without saturation the registry's sum grows by what was added.\<close>

lemma sum_add:
  assumes "inv r" and "(\<Sum>p\<in>UNIV. uj_of (val r p)) + unat d \<le> u64_max"
  shows "(\<Sum>p\<in>UNIV. uj_of (val (fst (add r pid d)) p)) = (\<Sum>p\<in>UNIV. uj_of (val r p)) + unat d"
proof -
  let ?v = "\<lambda>p. uj_of (val r p)"
  have "?v pid \<le> (\<Sum>p\<in>UNIV. ?v p)" by (rule member_le_sum) simp_all
  then have "?v pid + unat d \<le> u64_max" using assms(2) by simp
  then have "uj_of (val (fst (add r pid d)) p) = ?v p + (if p = pid then unat d else 0)" for p
    by (simp add: uj_add assms(1))
  then show ?thesis by (simp add: sum.distrib)
qed

lemma sum_add_all:
  "inv r \<Longrightarrow> (\<Sum>p\<in>UNIV. uj_of (val r p)) + sum_deltas ps \<le> u64_max \<Longrightarrow>
   (\<Sum>p\<in>UNIV. uj_of (val (add_all add r ps) p)) = (\<Sum>p\<in>UNIV. uj_of (val r p)) + sum_deltas ps"
proof (induction ps arbitrary: r)
  case (Cons x ps)
  obtain pid d where x: "x = (pid, d)" by (cases x)
  have "(\<Sum>p\<in>UNIV. uj_of (val r p)) + unat d \<le> u64_max"
    using Cons.prems(2) by (simp add: x)
  then have "(\<Sum>p\<in>UNIV. uj_of (val (fst (add r pid d)) p)) = (\<Sum>p\<in>UNIV. uj_of (val r p)) + unat d"
    by (rule sum_add [OF Cons.prems(1)])
  then show ?case
    using Cons.IH [OF inv_add [OF Cons.prems(1)], of pid d] Cons.prems(2) by (simp add: x)
qed simp

end

section \<open>The skip map\<close>

text \<open>
  References to atomic cells, and the operations of \<open>crossbeam_skiplist::SkipMap\<close> the
  registry calls.  \<open>get_or_insert\<close> returns the entry that ends up living in the map;
  \<open>iter\<close> lists the entries in ascending key order.
\<close>

type_synonym cell_ref = nat

record 't skip_map_ops =
  sm_new :: "'t"
  sm_get :: "'t \<Rightarrow> u32 \<Rightarrow> cell_ref option"
  sm_get_or_insert :: "'t \<Rightarrow> u32 \<Rightarrow> cell_ref \<Rightarrow> 't \<times> cell_ref"
  sm_remove :: "'t \<Rightarrow> u32 \<Rightarrow> 't \<times> cell_ref option"
  sm_iter :: "'t \<Rightarrow> (u32 \<times> cell_ref) list"
  sm_len :: "'t \<Rightarrow> nat"
  sm_is_empty :: "'t \<Rightarrow> bool"

section \<open>The registry and its operations\<close>

record 't AmalgafyRegistry =
  "table" :: "'t"
  cells :: "cell_ref \<Rightarrow> u64"
  next_cell :: cell_ref

definition registry_new :: "'t skip_map_ops \<Rightarrow> 't AmalgafyRegistry" where
  "registry_new sm = \<lparr>table = sm_new sm, cells = (\<lambda>_. 0), next_cell = 0\<rparr>"

text \<open>\<open>AtomicU64::new\<close>: a fresh cell.\<close>

definition atomic_new :: "'t AmalgafyRegistry \<Rightarrow> u64 \<Rightarrow> 't AmalgafyRegistry \<times> cell_ref" where
  "atomic_new r v =
     (r\<lparr>cells := (cells r)(next_cell r := v), next_cell := Suc (next_cell r)\<rparr>, next_cell r)"

text \<open>
  \<open>compare_exchange_weak\<close>: succeeds only when the cell holds the expected value, and may
  fail spuriously even then.  The list says which of the coming attempts fail spuriously;
  attempts beyond its end do not.
\<close>

definition compare_exchange_weak ::
  "bool list \<Rightarrow> (cell_ref \<Rightarrow> u64) \<Rightarrow> cell_ref \<Rightarrow> u64 \<Rightarrow> u64 \<Rightarrow> (cell_ref \<Rightarrow> u64) \<times> (u64 + u64)" where
  "compare_exchange_weak spurious cs a current new =
     (if cs a = current \<and> \<not> (spurious \<noteq> [] \<and> hd spurious)
      then (cs(a := new), Inr current)
      else (cs, Inl (cs a)))"

function saturating_add_loop ::
  "bool list \<Rightarrow> (cell_ref \<Rightarrow> u64) \<Rightarrow> cell_ref \<Rightarrow> u64 \<Rightarrow> u64 \<Rightarrow> (cell_ref \<Rightarrow> u64) \<times> u64" where
  "saturating_add_loop spurious cs a delta current =
     (let next_value = sat_add current delta in
      case compare_exchange_weak spurious cs a current next_value of
        (cs', Inr _) \<Rightarrow> (cs', next_value)
      | (cs', Inl observed) \<Rightarrow> saturating_add_loop (tl spurious) cs a delta observed)"
  by pat_completeness auto
termination
  by (relation "measure (\<lambda>(spurious, cs, a, delta, current).
        2 * length spurious + (if cs a = current then 0 else 1))")
     (auto simp: compare_exchange_weak_def neq_Nil_conv split: if_splits)

declare saturating_add_loop.simps [simp del]

definition saturating_add_spurious ::
  "bool list \<Rightarrow> (cell_ref \<Rightarrow> u64) \<Rightarrow> cell_ref \<Rightarrow> u64 \<Rightarrow> (cell_ref \<Rightarrow> u64) \<times> u64" where
  "saturating_add_spurious spurious cs a delta = saturating_add_loop spurious cs a delta (cs a)"

definition saturating_add :: "(cell_ref \<Rightarrow> u64) \<Rightarrow> cell_ref \<Rightarrow> u64 \<Rightarrow> (cell_ref \<Rightarrow> u64) \<times> u64" where
  "saturating_add cs a delta = saturating_add_spurious [] cs a delta"

definition add_micro_joules ::
  "'t skip_map_ops \<Rightarrow> 't AmalgafyRegistry \<Rightarrow> u32 \<Rightarrow> u64 \<Rightarrow> 't AmalgafyRegistry \<times> u64" where
  "add_micro_joules sm r pid delta_uj =
     (case sm_get sm (table r) pid of
        Some entry \<Rightarrow>
          (case saturating_add (cells r) entry delta_uj of (cs, v) \<Rightarrow> (r\<lparr>cells := cs\<rparr>, v))
      | None \<Rightarrow>
          (case atomic_new r 0 of (r1, fresh) \<Rightarrow>
           case sm_get_or_insert sm (table r1) pid fresh of (t, entry) \<Rightarrow>
           case saturating_add (cells r1) entry delta_uj of (cs, v) \<Rightarrow>
             (r1\<lparr>table := t, cells := cs\<rparr>, v)))"

definition registry_get :: "'t skip_map_ops \<Rightarrow> 't AmalgafyRegistry \<Rightarrow> u32 \<Rightarrow> u64 option" where
  "registry_get sm r pid = map_option (cells r) (sm_get sm (table r) pid)"

definition registry_remove ::
  "'t skip_map_ops \<Rightarrow> 't AmalgafyRegistry \<Rightarrow> u32 \<Rightarrow> 't AmalgafyRegistry \<times> u64 option" where
  "registry_remove sm r pid =
     (case sm_remove sm (table r) pid of
        (t, entry) \<Rightarrow> (r\<lparr>table := t\<rparr>, map_option (cells r) entry))"

definition registry_len :: "'t skip_map_ops \<Rightarrow> 't AmalgafyRegistry \<Rightarrow> nat" where
  "registry_len sm r = sm_len sm (table r)"

definition registry_is_empty :: "'t skip_map_ops \<Rightarrow> 't AmalgafyRegistry \<Rightarrow> bool" where
  "registry_is_empty sm r = sm_is_empty sm (table r)"

definition saturating_add_value :: "u64 \<Rightarrow> u64 \<Rightarrow> u64" where
  "saturating_add_value lhs rhs = sat_add lhs rhs"

definition total_micro_joules :: "'t skip_map_ops \<Rightarrow> 't AmalgafyRegistry \<Rightarrow> u64" where
  "total_micro_joules sm r =
     fold (\<lambda>(_, entry) total. saturating_add_value total (cells r entry)) (sm_iter sm (table r)) 0"

definition snapshot :: "'t skip_map_ops \<Rightarrow> 't AmalgafyRegistry \<Rightarrow> (u32 \<times> u64) list" where
  "snapshot sm r = map (\<lambda>(pid, entry). (pid, cells r entry)) (sm_iter sm (table r))"

text \<open>
  \<open>global_registry\<close>: a \<open>OnceLock\<close> that is filled on first use.  The state is the lock's
  content; the result is the content after the call.
\<close>

definition global_registry ::
  "'t skip_map_ops \<Rightarrow> 't AmalgafyRegistry option \<Rightarrow> 't AmalgafyRegistry option \<times> 't AmalgafyRegistry" where
  "global_registry sm cell =
     (case cell of Some r \<Rightarrow> (cell, r) | None \<Rightarrow> (Some (registry_new sm), registry_new sm))"

section \<open>The compare-and-swap loop\<close>

text \<open>
  Whatever the spurious failures and whatever value the loop starts from, a caller that
  is alone on the cell ends by storing the saturating sum.
\<close>

lemma saturating_add_loop_result:
  "saturating_add_loop spurious cs a delta current
     = (cs(a := sat_add (cs a) delta), sat_add (cs a) delta)"
proof (induction spurious cs a delta current rule: saturating_add_loop.induct)
  case (1 spurious cs a delta current)
  show ?case
  proof (cases "cs a = current \<and> \<not> (spurious \<noteq> [] \<and> hd spurious)")
    case True
    then show ?thesis
      by (auto simp: saturating_add_loop.simps [of spurious] compare_exchange_weak_def Let_def)
  next
    case False
    then have "compare_exchange_weak spurious cs a current (sat_add current delta) = (cs, Inl (cs a))"
      by (simp add: compare_exchange_weak_def)
    with 1 show ?thesis
      by (simp add: saturating_add_loop.simps [of spurious cs a delta current])
  qed
qed

lemma saturating_add_result [simp]:
  "saturating_add cs a delta = (cs(a := sat_add (cs a) delta), sat_add (cs a) delta)"
  by (simp add: saturating_add_def saturating_add_spurious_def saturating_add_loop_result)

section \<open>Registries over a lawful skip map\<close>

locale skip_map =
  fixes sm :: "'t skip_map_ops" and sm_inv :: "'t \<Rightarrow> bool"
  assumes new_inv: "sm_inv (sm_new sm)"
    and new_get: "sm_get sm (sm_new sm) k = None"
    and get_iter: "sm_inv t \<Longrightarrow> sm_get sm t k = map_of (sm_iter sm t) k"
    and iter_sorted: "sm_inv t \<Longrightarrow> sorted_wrt (<) (map fst (sm_iter sm t))"
    and get_or_insert_inv: "sm_inv t \<Longrightarrow> sm_inv (fst (sm_get_or_insert sm t k a))"
    and get_or_insert_entry: "sm_inv t \<Longrightarrow>
      snd (sm_get_or_insert sm t k a) = unwrap_or a (sm_get sm t k)"
    and get_or_insert_get: "sm_inv t \<Longrightarrow>
      sm_get sm (fst (sm_get_or_insert sm t k a)) = (sm_get sm t)(k \<mapsto> unwrap_or a (sm_get sm t k))"
    and remove_inv: "sm_inv t \<Longrightarrow> sm_inv (fst (sm_remove sm t k))"
    and remove_get: "sm_inv t \<Longrightarrow> sm_get sm (fst (sm_remove sm t k)) = (sm_get sm t)(k := None)"
    and remove_entry: "sm_inv t \<Longrightarrow> snd (sm_remove sm t k) = sm_get sm t k"
    and len_iter: "sm_inv t \<Longrightarrow> sm_len sm t = length (sm_iter sm t)"
    and is_empty_iter: "sm_inv t \<Longrightarrow> sm_is_empty sm t \<longleftrightarrow> sm_iter sm t = []"

text \<open>
  Well-formedness: the table obeys the map's own invariant, every entry refers to an
  allocated cell, and no two processes share one.
\<close>

definition registry_inv ::
  "'t skip_map_ops \<Rightarrow> ('t \<Rightarrow> bool) \<Rightarrow> 't AmalgafyRegistry \<Rightarrow> bool" where
  "registry_inv sm sm_inv r \<longleftrightarrow>
     sm_inv (table r)
     \<and> (\<forall>pid a. sm_get sm (table r) pid = Some a \<longrightarrow> a < next_cell r)
     \<and> (\<forall>p q a. sm_get sm (table r) p = Some a \<longrightarrow> sm_get sm (table r) q = Some a \<longrightarrow> p = q)"

lemma registry_invD:
  assumes "registry_inv sm sm_inv r"
  shows "sm_inv (table r)"
    and "sm_get sm (table r) p = Some a \<Longrightarrow> a < next_cell r"
    and "sm_get sm (table r) p = Some a \<Longrightarrow> sm_get sm (table r) q = Some a \<Longrightarrow> p = q"
  using assms unfolding registry_inv_def by blast+

lemma sum_list_map_of:
  "distinct (map fst xs) \<Longrightarrow>
   sum_list (map (\<lambda>(k, v). f v) xs)
     = (\<Sum>k\<in>UNIV. case map_of xs k of None \<Rightarrow> 0 | Some v \<Rightarrow> f v)"
  for xs :: "('k::finite \<times> 'v) list" and f :: "'v \<Rightarrow> nat"
proof (induction xs)
  case (Cons x xs)
  obtain k v where x: "x = (k, v)" by (cases x)
  have none: "map_of xs k = None"
    using Cons.prems by (simp add: x map_of_eq_None_iff)
  have "(case map_of (x # xs) j of None \<Rightarrow> 0 | Some v \<Rightarrow> f v)
      = (case map_of xs j of None \<Rightarrow> 0 | Some v \<Rightarrow> f v) + (if j = k then f v else 0)" for j
    using none by (simp add: x)
  then show ?case using Cons by (simp add: x sum.distrib)
qed simp

context skip_map
begin

lemma registry_inv_new: "registry_inv sm sm_inv (registry_new sm)"
  by (simp add: registry_inv_def registry_new_def new_inv new_get)

lemma add_micro_joules_hit:
  assumes "sm_get sm (table r) pid = Some a"
  shows "add_micro_joules sm r pid d =
    (r\<lparr>cells := (cells r)(a := sat_add (cells r a) d)\<rparr>, sat_add (cells r a) d)"
  using assms by (simp add: add_micro_joules_def)

lemma add_micro_joules_miss:
  assumes "sm_inv (table r)" and "sm_get sm (table r) pid = None"
  shows "add_micro_joules sm r pid d =
    (r\<lparr>table := fst (sm_get_or_insert sm (table r) pid (next_cell r)),
       cells := (cells r)(next_cell r := d), next_cell := Suc (next_cell r)\<rparr>, d)"
proof -
  have "sm_get_or_insert sm (table r) pid (next_cell r)
      = (fst (sm_get_or_insert sm (table r) pid (next_cell r)), next_cell r)"
    using get_or_insert_entry [OF assms(1), of pid "next_cell r"] assms(2) by (simp add: prod_eq_iff)
  then show ?thesis
    using assms(2) by (cases "sm_get_or_insert sm (table r) pid (next_cell r)")
      (simp add: add_micro_joules_def atomic_new_def)
qed

lemma registry_inv_add:
  assumes "registry_inv sm sm_inv r"
  shows "registry_inv sm sm_inv (fst (add_micro_joules sm r pid d))"
proof (cases "sm_get sm (table r) pid")
  case None
  note D = registry_invD [OF assms]
  show ?thesis
    using D(2) D(3)
    by (auto simp: registry_inv_def add_micro_joules_miss [OF D(1) None] get_or_insert_inv D(1)
        get_or_insert_get None less_Suc_eq dest: D(2) split: if_splits)
next
  case (Some a)
  then show ?thesis
    using assms by (simp add: registry_inv_def add_micro_joules_hit)
qed

lemma registry_get_add:
  assumes "registry_inv sm sm_inv r"
  shows "registry_get sm (fst (add_micro_joules sm r pid d)) =
    (registry_get sm r)(pid \<mapsto> sat_add (unwrap_or 0 (registry_get sm r pid)) d)"
proof
  fix q
  note D = registry_invD [OF assms]
  show "registry_get sm (fst (add_micro_joules sm r pid d)) q =
    ((registry_get sm r)(pid \<mapsto> sat_add (unwrap_or 0 (registry_get sm r pid)) d)) q"
  proof (cases "sm_get sm (table r) pid")
    case None
    then show ?thesis
      using D(2) [of q]
      by (cases "sm_get sm (table r) q")
         (auto simp: registry_get_def add_micro_joules_miss D(1) get_or_insert_get)
  next
    case (Some a)
    then show ?thesis
      using D(3) [of q a pid]
      by (cases "sm_get sm (table r) q") (auto simp: registry_get_def add_micro_joules_hit)
  qed
qed

lemma add_micro_joules_return:
  assumes "registry_inv sm sm_inv r"
  shows "snd (add_micro_joules sm r pid d) = sat_add (unwrap_or 0 (registry_get sm r pid)) d"
  by (cases "sm_get sm (table r) pid")
     (simp_all add: registry_get_def add_micro_joules_hit add_micro_joules_miss registry_invD(1) [OF assms])

lemma registry_inv_remove:
  assumes "registry_inv sm sm_inv r"
  shows "registry_inv sm sm_inv (fst (registry_remove sm r pid))"
proof -
  note D = registry_invD [OF assms]
  show ?thesis
    using D(2) D(3)
    by (auto simp: registry_inv_def registry_remove_def split_beta remove_inv remove_get D(1) split: if_splits)
qed

lemma registry_remove_result:
  assumes "registry_inv sm sm_inv r"
  shows "snd (registry_remove sm r pid) = registry_get sm r pid"
    and "registry_get sm (fst (registry_remove sm r pid)) = (registry_get sm r)(pid := None)"
  using registry_invD(1) [OF assms]
  by (auto simp: registry_remove_def registry_get_def split_beta remove_get remove_entry)

lemma snapshot_lookup:
  assumes "registry_inv sm sm_inv r"
  shows "map_of (snapshot sm r) pid = registry_get sm r pid"
  using registry_invD(1) [OF assms]
  by (simp add: snapshot_def registry_get_def get_iter map_of_map)

lemma snapshot_sorted:
  assumes "registry_inv sm sm_inv r"
  shows "sorted_wrt (<) (map fst (snapshot sm r))"
proof -
  have "map fst (snapshot sm r) = map fst (sm_iter sm (table r))"
    by (simp add: snapshot_def split_beta)
  then show ?thesis using iter_sorted [OF registry_invD(1) [OF assms]] by simp
qed

lemma total_micro_joules_sum:
  assumes "registry_inv sm sm_inv r"
  shows "unat (total_micro_joules sm r) = min (\<Sum>p\<in>UNIV. uj_of (registry_get sm r p)) u64_max"
proof -
  let ?es = "sm_iter sm (table r)"
  have "fold (\<lambda>(_, entry) total. saturating_add_value total (cells r entry)) es acc
      = fold (\<lambda>x acc. sat_add acc x) (map (\<lambda>(_, entry). cells r entry) es) acc"
    for es :: "(u32 \<times> cell_ref) list" and acc
    by (induction es arbitrary: acc) (auto simp: saturating_add_value_def)
  then have "unat (total_micro_joules sm r)
      = min (sum_list (map (\<lambda>(_, entry). unat (cells r entry)) ?es)) u64_max"
    by (simp add: total_micro_joules_def sum_list_unat_fold_sat_add comp_def case_prod_unfold)
  also have "sum_list (map (\<lambda>(_, entry). unat (cells r entry)) ?es)
      = (\<Sum>p\<in>UNIV. case map_of ?es p of None \<Rightarrow> 0 | Some a \<Rightarrow> unat (cells r a))"
    using iter_sorted [OF registry_invD(1) [OF assms]] strict_sorted_iff
    by (intro sum_list_map_of) blast
  also have "\<dots> = (\<Sum>p\<in>UNIV. uj_of (registry_get sm r p))"
    by (rule sum.cong) (auto simp: registry_get_def get_iter [OF registry_invD(1) [OF assms]]
        split: option.splits)
  finally show ?thesis .
qed

end

sublocale skip_map \<subseteq> reg: energy_registry "registry_inv sm sm_inv" "registry_get sm" "add_micro_joules sm"
  by unfold_locales (simp_all add: registry_inv_add registry_get_add add_micro_joules_return)

section \<open>An ordered table as the skip map\<close>

text \<open>
  The skip map's documentation promises the semantics of an ordered map.  The ordered
  map of \<open>Ordered_Map\<close> provides all of its operations and laws; the concrete runs of
  this development use it.
\<close>

definition btree_skip_map :: "(u32 \<times> cell_ref) list skip_map_ops" where
  "btree_skip_map =
     \<lparr>sm_new = bt_new,
      sm_get = bt_get,
      sm_get_or_insert = (\<lambda>t k a. case bt_get t k of None \<Rightarrow> (bt_insert t k a, a) | Some b \<Rightarrow> (t, b)),
      sm_remove = (\<lambda>t k. (bt_remove t k, bt_get t k)),
      sm_iter = (\<lambda>t. t),
      sm_len = length,
      sm_is_empty = (\<lambda>t. t = [])\<rparr>"

lemma btree_skip_map_ops [simp]:
  "sm_new btree_skip_map = bt_new"
  "sm_get btree_skip_map = bt_get"
  "sm_get_or_insert btree_skip_map t k a
     = (case bt_get t k of None \<Rightarrow> (bt_insert t k a, a) | Some b \<Rightarrow> (t, b))"
  "sm_remove btree_skip_map t k = (bt_remove t k, bt_get t k)"
  "sm_iter btree_skip_map t = t"
  "sm_len btree_skip_map t = length t"
  "sm_is_empty btree_skip_map t = (t = [])"
  by (simp_all add: btree_skip_map_def)

interpretation btree: skip_map btree_skip_map bt_inv
  by unfold_locales
     (auto simp: bt.get_entries bt.entries_sorted bt.get_put bt.get_del bt.inv_put bt.inv_del
        fun_upd_idem split: option.splits)

section \<open>Properties\<close>

text \<open>
  C35.  The compare-and-swap loop returns for every finite pattern of spurious failures
  and every starting guess, and then has stored exactly the saturating sum of the cell
  and the delta, touching no other cell.
\<close>

theorem saturating_add_spurious_result:
  "saturating_add_spurious spurious cs a delta
     = (cs(a := sat_add (cs a) delta), sat_add (cs a) delta)
   \<and> saturating_add_loop spurious cs a delta current = saturating_add_spurious spurious cs a delta
   \<and> unat (sat_add (cs a) delta) = min (unat (cs a) + unat delta) u64_max"
  by (simp add: saturating_add_spurious_def saturating_add_loop_result u64_nat)

text \<open>
  C21.  Accumulation refines an update of an abstract map from process ids to
  micro-joules: the registry stays well-formed, the process's total becomes the
  saturating sum of its previous total (zero if untracked) and the delta, no other
  process changes, and the new total is returned.
\<close>

theorem add_micro_joules_refines:
  assumes "skip_map sm sm_inv" and "registry_inv sm sm_inv r"
  shows "registry_inv sm sm_inv (fst (add_micro_joules sm r pid d))
    \<and> registry_get sm (fst (add_micro_joules sm r pid d))
        = (registry_get sm r)(pid \<mapsto> sat_add (unwrap_or 0 (registry_get sm r pid)) d)
    \<and> snd (add_micro_joules sm r pid d) = sat_add (unwrap_or 0 (registry_get sm r pid)) d"
  using assms skip_map.registry_inv_add skip_map.registry_get_add skip_map.add_micro_joules_return
  by metis

text \<open>The concrete registry of the witnesses: two accumulations on an empty registry.\<close>

definition example_registry :: "(u32 \<times> cell_ref) list AmalgafyRegistry" where
  "example_registry = add_all (add_micro_joules btree_skip_map) (registry_new btree_skip_map)
     [(1024, 250), (9, 10)]"

lemma registry_inv_example: "registry_inv btree_skip_map bt_inv example_registry"
  unfolding example_registry_def by (intro btree.reg.inv_add_all btree.registry_inv_new)

lemma example_registry_eq:
  "example_registry = \<lparr>table = [(9, 1), (1024, 0)], cells = (\<lambda>_. 0)(0 := 250, 1 := 10), next_cell = 2\<rparr>"
  by (simp add: example_registry_def add_micro_joules_def atomic_new_def registry_new_def
      bt_get_def bt_new_def fun_eq_iff)

theorem add_micro_joules_refines_witness:
  "registry_get btree_skip_map (fst (add_micro_joules btree_skip_map example_registry 1024 750)) 1024
     = Some 1000"
proof -
  have "registry_get btree_skip_map example_registry 1024 = Some 250"
    by (simp add: example_registry_eq registry_get_def bt_get_def)
  then show ?thesis
    using add_micro_joules_refines [OF btree.skip_map_axioms registry_inv_example, of 1024 750]
    by (simp add: sat_add_def)
qed

lemma energy_registry_of_skip_map:
  assumes "skip_map sm sm_inv"
  shows "energy_registry (registry_inv sm sm_inv) (registry_get sm) (add_micro_joules sm)"
  using assms by (unfold_locales)
    (simp_all add: skip_map.registry_inv_add skip_map.registry_get_add skip_map.add_micro_joules_return)

lemmas add_micro_joules_batch_value =
  energy_registry.uj_add_all [OF energy_registry_of_skip_map]

lemmas add_micro_joules_batch_order =
  energy_registry.add_all_order_irrelevant [OF energy_registry_of_skip_map]

text \<open>
  A batch of accumulations, in whatever order, adds to every process exactly the sum
  of its deltas (saturating), and any two orders of the batch leave the same totals.
\<close>

theorem add_micro_joules_batch:
  assumes "skip_map sm sm_inv" and "registry_inv sm sm_inv r" and "mset ps = mset qs"
  shows "uj_of (registry_get sm (add_all (add_micro_joules sm) r ps) pid)
           = min (uj_of (registry_get sm r pid) + sum_for pid ps) u64_max
    \<and> registry_get sm (add_all (add_micro_joules sm) r ps)
        = registry_get sm (add_all (add_micro_joules sm) r qs)"
  using add_micro_joules_batch_value [OF assms(1,2)]
    add_micro_joules_batch_order [OF assms] by blast

theorem add_micro_joules_batch_witness:
  "uj_of (registry_get btree_skip_map
      (add_all (add_micro_joules btree_skip_map) example_registry [(9, 5), (7, 1), (9, 6)]) 9) = 21"
proof -
  have "registry_get btree_skip_map example_registry 9 = Some 10"
    by (simp add: example_registry_eq registry_get_def bt_get_def)
  then show ?thesis
    using add_micro_joules_batch [OF btree.skip_map_axioms registry_inv_example,
        of "[(9, 5), (7, 1), (9, 6)]" "[(7, 1), (9, 6), (9, 5)]" 9, THEN conjunct1]
    by (simp del: add_all.simps)
qed

text \<open>
  The snapshot lists exactly the tracked processes with their totals, in strictly
  ascending order of process id, and the reported grand total is the sum over all
  processes, saturating at the largest 64-bit value.
\<close>

theorem snapshot_and_total:
  assumes "skip_map sm sm_inv" and "registry_inv sm sm_inv r"
  shows "sorted_wrt (<) (map fst (snapshot sm r))
    \<and> map_of (snapshot sm r) = registry_get sm r
    \<and> registry_len sm r = length (snapshot sm r)
    \<and> unat (total_micro_joules sm r) = min (sum_list (map (\<lambda>(_, v). unat v) (snapshot sm r))) u64_max"
proof -
  have sorted: "sorted_wrt (<) (map fst (snapshot sm r))"
    using assms by (rule skip_map.snapshot_sorted)
  have lookup: "map_of (snapshot sm r) = registry_get sm r"
    using skip_map.snapshot_lookup [OF assms] by (rule ext)
  have "sum_list (map (\<lambda>(_, v). unat v) (snapshot sm r))
      = (\<Sum>p\<in>UNIV. case map_of (snapshot sm r) p of None \<Rightarrow> 0 | Some v \<Rightarrow> unat v)"
    using sorted strict_sorted_iff by (intro sum_list_map_of) blast
  also have "\<dots> = (\<Sum>p\<in>UNIV. uj_of (registry_get sm r p))"
    by (simp add: lookup uj_of_def)
  finally have "unat (total_micro_joules sm r)
      = min (sum_list (map (\<lambda>(_, v). unat v) (snapshot sm r))) u64_max"
    using skip_map.total_micro_joules_sum [OF assms] by simp
  moreover have "registry_len sm r = length (snapshot sm r)"
    using skip_map.len_iter [OF assms(1) registry_invD(1) [OF assms(2)]]
    by (simp add: registry_len_def snapshot_def)
  ultimately show ?thesis using sorted lookup by blast
qed

theorem snapshot_and_total_witness:
  "snapshot btree_skip_map example_registry = [(9, 10), (1024, 250)]
   \<and> unat (total_micro_joules btree_skip_map example_registry) = 260"
proof -
  have "snapshot btree_skip_map example_registry = [(9, 10), (1024, 250)]"
    by (simp add: example_registry_eq snapshot_def)
  then show ?thesis
    using snapshot_and_total [OF btree.skip_map_axioms registry_inv_example] by simp
qed

text \<open>
  Removing a process returns its final total (nothing if it was not tracked), stops
  tracking it and leaves every other process unchanged; a later accumulation starts again
  from zero.
\<close>

theorem registry_remove_restarts:
  assumes "skip_map sm sm_inv" and "registry_inv sm sm_inv r"
  shows "snd (registry_remove sm r pid) = registry_get sm r pid
    \<and> registry_get sm (fst (registry_remove sm r pid)) = (registry_get sm r)(pid := None)
    \<and> snd (add_micro_joules sm (fst (registry_remove sm r pid)) pid d) = d"
proof -
  have res: "snd (registry_remove sm r pid) = registry_get sm r pid"
    "registry_get sm (fst (registry_remove sm r pid)) = (registry_get sm r)(pid := None)"
    by (rule skip_map.registry_remove_result [OF assms])+
  have "registry_inv sm sm_inv (fst (registry_remove sm r pid))"
    using assms by (rule skip_map.registry_inv_remove)
  then have "snd (add_micro_joules sm (fst (registry_remove sm r pid)) pid d) = d"
    using skip_map.add_micro_joules_return [OF assms(1)] res(2) by simp
  with res show ?thesis by blast
qed

theorem registry_remove_restarts_witness:
  "snd (registry_remove btree_skip_map example_registry 9) = Some 10
   \<and> snd (add_micro_joules btree_skip_map (fst (registry_remove btree_skip_map example_registry 9)) 9 3) = 3"
  using registry_remove_restarts [OF btree.skip_map_axioms registry_inv_example, of 9 3]
  by (simp add: example_registry_eq registry_get_def bt_get_def)

end
