(* ===== verification/Registry_Concurrent.thy ===== *)
theory Registry_Concurrent
  imports Registry
begin

text \<open>
  The registry under concurrent callers, \<open>src/core/registry.rs\<close>: a small-step machine
  in which every atomic access of \<open>add_micro_joules\<close>, \<open>saturating_add\<close> and \<open>remove\<close> is
  one step of one thread and the scheduler is arbitrary.  The skip map's operations are
  single steps (it is documented as linearisable), the weak compare-and-swap may fail
  spuriously, and a fresh cell is allocated before \<open>get_or_insert\<close> decides whether it
  is used.

  The state carries two ghost logs: the accumulations called so far, and the ones
  committed by a successful compare-and-swap with the value they return.  For runs of
  accumulations the commit log is a legal sequential history of the registry (the
  implementation is linearisable) and no delta is lost; a concurrent \<open>remove\<close> breaks
  this, as the last theorem shows.
\<close>

section \<open>The machine\<close>

datatype pc =
    Idle
  | AddGet u32 u64                      \<comment> \<open>before \<open>self.table.get(&pid)\<close>\<close>
  | AddInsert u32 u64                   \<comment> \<open>before \<open>self.table.get_or_insert(pid, AtomicU64::new(0))\<close>\<close>
  | AddLoad u32 u64 cell_ref            \<comment> \<open>before \<open>cell.load(Acquire)\<close>\<close>
  | AddCas u32 u64 cell_ref u64         \<comment> \<open>before \<open>compare_exchange_weak(current, next, ..)\<close>\<close>
  | AddReturned u64
  | RemoveTable u32                     \<comment> \<open>before \<open>self.table.remove(&pid)\<close>\<close>
  | RemoveLoad u32 "cell_ref option"    \<comment> \<open>before the load of the removed entry\<close>

record 't system =
  reg :: "'t AmalgafyRegistry"
  threads :: "pc list"
  called :: "(u32 \<times> u64) list"
  committed :: "(u32 \<times> u64 \<times> u64) list"
  removed :: "(u32 \<times> u64 option) list"

definition init_system :: "'t AmalgafyRegistry \<Rightarrow> nat \<Rightarrow> 't system" where
  "init_system r n = \<lparr>reg = r, threads = replicate n Idle, called = [], committed = [], removed = []\<rparr>"

inductive add_step :: "'t skip_map_ops \<Rightarrow> 't system \<Rightarrow> 't system \<Rightarrow> bool" for sm where
  add_call: "i < length (threads s) \<Longrightarrow> threads s ! i = Idle \<Longrightarrow>
    add_step sm s (s\<lparr>threads := (threads s)[i := AddGet pid d], called := called s @ [(pid, d)]\<rparr>)"
| add_get_hit: "i < length (threads s) \<Longrightarrow> threads s ! i = AddGet pid d \<Longrightarrow>
    sm_get sm (table (reg s)) pid = Some a \<Longrightarrow>
    add_step sm s (s\<lparr>threads := (threads s)[i := AddLoad pid d a]\<rparr>)"
| add_get_miss: "i < length (threads s) \<Longrightarrow> threads s ! i = AddGet pid d \<Longrightarrow>
    sm_get sm (table (reg s)) pid = None \<Longrightarrow>
    add_step sm s (s\<lparr>threads := (threads s)[i := AddInsert pid d]\<rparr>)"
| add_get_or_insert: "i < length (threads s) \<Longrightarrow> threads s ! i = AddInsert pid d \<Longrightarrow>
    atomic_new (reg s) 0 = (r, fresh) \<Longrightarrow> sm_get_or_insert sm (table r) pid fresh = (t, a) \<Longrightarrow>
    add_step sm s (s\<lparr>reg := r\<lparr>table := t\<rparr>, threads := (threads s)[i := AddLoad pid d a]\<rparr>)"
| add_load: "i < length (threads s) \<Longrightarrow> threads s ! i = AddLoad pid d a \<Longrightarrow>
    add_step sm s (s\<lparr>threads := (threads s)[i := AddCas pid d a (cells (reg s) a)]\<rparr>)"
| add_cas_ok: "i < length (threads s) \<Longrightarrow> threads s ! i = AddCas pid d a current \<Longrightarrow>
    compare_exchange_weak [] (cells (reg s)) a current (sat_add current d) = (cs, Inr v) \<Longrightarrow>
    add_step sm s (s\<lparr>reg := (reg s)\<lparr>cells := cs\<rparr>,
      threads := (threads s)[i := AddReturned (sat_add current d)],
      committed := committed s @ [(pid, d, sat_add current d)]\<rparr>)"
| add_cas_fail: "i < length (threads s) \<Longrightarrow> threads s ! i = AddCas pid d a current \<Longrightarrow>
    compare_exchange_weak [spurious] (cells (reg s)) a current (sat_add current d) = (cs, Inl observed) \<Longrightarrow>
    add_step sm s (s\<lparr>threads := (threads s)[i := AddCas pid d a observed]\<rparr>)"
| add_return: "i < length (threads s) \<Longrightarrow> threads s ! i = AddReturned v \<Longrightarrow>
    add_step sm s (s\<lparr>threads := (threads s)[i := Idle]\<rparr>)"

inductive registry_step :: "'t skip_map_ops \<Rightarrow> 't system \<Rightarrow> 't system \<Rightarrow> bool" for sm where
  step_add: "add_step sm s s' \<Longrightarrow> registry_step sm s s'"
| remove_call: "i < length (threads s) \<Longrightarrow> threads s ! i = Idle \<Longrightarrow>
    registry_step sm s (s\<lparr>threads := (threads s)[i := RemoveTable pid]\<rparr>)"
| remove_table: "i < length (threads s) \<Longrightarrow> threads s ! i = RemoveTable pid \<Longrightarrow>
    sm_remove sm (table (reg s)) pid = (t, entry) \<Longrightarrow>
    registry_step sm s (s\<lparr>reg := (reg s)\<lparr>table := t\<rparr>,
      threads := (threads s)[i := RemoveLoad pid entry]\<rparr>)"
| remove_load: "i < length (threads s) \<Longrightarrow> threads s ! i = RemoveLoad pid entry \<Longrightarrow>
    registry_step sm s (s\<lparr>threads := (threads s)[i := Idle],
      removed := removed s @ [(pid, map_option (cells (reg s)) entry)]\<rparr>)"

abbreviation add_steps :: "'t skip_map_ops \<Rightarrow> 't system \<Rightarrow> 't system \<Rightarrow> bool" where
  "add_steps sm \<equiv> (add_step sm)\<^sup>*\<^sup>*"

abbreviation registry_steps :: "'t skip_map_ops \<Rightarrow> 't system \<Rightarrow> 't system \<Rightarrow> bool" where
  "registry_steps sm \<equiv> (registry_step sm)\<^sup>*\<^sup>*"

lemma cas_ok_iff:
  "compare_exchange_weak [] cs a current new = (cs', Inr v) \<longleftrightarrow>
     cs a = current \<and> cs' = cs(a := new) \<and> v = current"
  by (auto simp: compare_exchange_weak_def)

lemma cas_failD:
  "compare_exchange_weak spurious cs a current new = (cs', Inl v) \<Longrightarrow> cs' = cs \<and> v = cs a"
  by (auto simp: compare_exchange_weak_def split: if_splits)

section \<open>The sequential specification\<close>

text \<open>
  A log of commits replayed on a map of totals, and what makes it a legal sequential
  history: every entry reports the saturating sum its accumulation produced.
\<close>

fun apply_log :: "(u32 \<Rightarrow> u64) \<Rightarrow> (u32 \<times> u64 \<times> u64) list \<Rightarrow> (u32 \<Rightarrow> u64)" where
  "apply_log m [] = m"
| "apply_log m ((pid, d, v) # log) = apply_log (m(pid := sat_add (m pid) d)) log"

fun legal_log :: "(u32 \<Rightarrow> u64) \<Rightarrow> (u32 \<times> u64 \<times> u64) list \<Rightarrow> bool" where
  "legal_log m [] = True"
| "legal_log m ((pid, d, v) # log) \<longleftrightarrow>
     v = sat_add (m pid) d \<and> legal_log (m(pid := sat_add (m pid) d)) log"

definition totals :: "'t skip_map_ops \<Rightarrow> 't AmalgafyRegistry \<Rightarrow> u32 \<Rightarrow> u64" where
  "totals sm r pid = unwrap_or 0 (registry_get sm r pid)"

lemma apply_log_snoc:
  "apply_log m (log @ [(pid, d, v)]) = (apply_log m log)(pid := sat_add (apply_log m log pid) d)"
  by (induction m log rule: apply_log.induct) (simp_all del: fun_upd_apply)

lemma legal_log_snoc:
  "legal_log m (log @ [(pid, d, v)]) \<longleftrightarrow> legal_log m log \<and> v = sat_add (apply_log m log pid) d"
  by (induction m log rule: apply_log.induct) (simp_all del: fun_upd_apply)

definition deltas :: "(u32 \<times> u64 \<times> u64) list \<Rightarrow> (u32 \<times> u64) list" where
  "deltas log = map (\<lambda>(pid, d, _). (pid, d)) log"

lemma deltas_simps [simp]:
  "deltas [] = []" "deltas ((pid, d, v) # log) = (pid, d) # deltas log"
  "deltas (log @ log') = deltas log @ deltas log'"
  by (simp_all add: deltas_def)

lemma unat_apply_log:
  "unat (apply_log m log pid) = min (unat (m pid) + sum_for pid (deltas log)) u64_max"
proof (induction m log rule: apply_log.induct)
  case (2 m p d v log)
  then show ?case
    by (cases "p = pid") (simp_all add: u64_nat fun_upd_same fun_upd_other add.assoc del: fun_upd_apply)
qed simp

section \<open>The invariant\<close>

text \<open>
  The delta a thread has called for and not yet committed; and the entry it works on,
  which must be the one the table holds for its process.
\<close>

fun in_flight :: "pc \<Rightarrow> (u32 \<times> u64) multiset" where
  "in_flight (AddGet pid d) = {#(pid, d)#}"
| "in_flight (AddInsert pid d) = {#(pid, d)#}"
| "in_flight (AddLoad pid d a) = {#(pid, d)#}"
| "in_flight (AddCas pid d a c) = {#(pid, d)#}"
| "in_flight _ = {#}"

fun pc_ok :: "'t skip_map_ops \<Rightarrow> 't \<Rightarrow> pc \<Rightarrow> bool" where
  "pc_ok sm t (AddLoad pid d a) \<longleftrightarrow> sm_get sm t pid = Some a"
| "pc_ok sm t (AddCas pid d a c) \<longleftrightarrow> sm_get sm t pid = Some a"
| "pc_ok sm t _ \<longleftrightarrow> True"

definition system_inv ::
  "'t skip_map_ops \<Rightarrow> ('t \<Rightarrow> bool) \<Rightarrow> (u32 \<Rightarrow> u64) \<Rightarrow> 't system \<Rightarrow> bool" where
  "system_inv sm sm_inv m0 s \<longleftrightarrow>
     registry_inv sm sm_inv (reg s)
     \<and> (\<forall>i < length (threads s). pc_ok sm (table (reg s)) (threads s ! i))
     \<and> legal_log m0 (committed s)
     \<and> totals sm (reg s) = apply_log m0 (committed s)
     \<and> mset (called s) = mset (deltas (committed s)) + sum_list (map in_flight (threads s))"

lemma system_invD:
  assumes "system_inv sm sm_inv m0 s"
  shows "registry_inv sm sm_inv (reg s)"
    and "i < length (threads s) \<Longrightarrow> pc_ok sm (table (reg s)) (threads s ! i)"
    and "legal_log m0 (committed s)"
    and "totals sm (reg s) = apply_log m0 (committed s)"
    and "mset (called s) = mset (deltas (committed s)) + sum_list (map in_flight (threads s))"
  using assms by (simp_all add: system_inv_def)

lemma sum_list_in_flight_update:
  assumes "i < length ts"
  shows "sum_list (map in_flight (ts[i := p])) + in_flight (ts ! i)
           = sum_list (map in_flight ts) + in_flight p"
proof -
  have ts: "ts = take i ts @ ts ! i # drop (Suc i) ts"
    using assms by (rule id_take_nth_drop)
  have "ts[i := p] = take i ts @ p # drop (Suc i) ts"
    using assms by (rule upd_conv_take_nth_drop)
  then have "sum_list (map in_flight (ts[i := p]))
      = sum_list (map in_flight (take i ts)) + (in_flight p + sum_list (map in_flight (drop (Suc i) ts)))"
    by simp
  moreover have "sum_list (map in_flight ts)
      = sum_list (map in_flight (take i ts)) + (in_flight (ts ! i) + sum_list (map in_flight (drop (Suc i) ts)))"
    by (subst ts) (simp del: append_take_drop_id)
  ultimately show ?thesis by (simp add: ac_simps)
qed

lemma in_flight_idle: "\<forall>p \<in> set ts. p = Idle \<Longrightarrow> sum_list (map in_flight ts) = {#}"
  by (induction ts) simp_all

lemma in_flight_update_same:
  assumes "i < length ts" and "in_flight (ts ! i) = in_flight p"
  shows "sum_list (map in_flight (ts[i := p])) = sum_list (map in_flight ts)"
  using sum_list_in_flight_update [OF assms(1), of p] assms(2) by simp

text \<open>Steps that move one thread and touch neither the registry nor the logs.\<close>

lemma system_inv_move:
  assumes "system_inv sm sm_inv m0 s" and "i < length (threads s)"
    and "in_flight (threads s ! i) = in_flight p" and "pc_ok sm (table (reg s)) p"
  shows "system_inv sm sm_inv m0 (s\<lparr>threads := (threads s)[i := p]\<rparr>)"
  using assms system_invD(2) [OF assms(1)]
  by (auto simp: system_inv_def in_flight_update_same nth_list_update)

context skip_map
begin

lemma get_or_insert_fresh_inv:
  assumes "registry_inv sm sm_inv r0" and "atomic_new r0 0 = (r, fresh)"
    and "sm_get_or_insert sm (table r) pid fresh = (t, a)"
  shows "registry_inv sm sm_inv (r\<lparr>table := t\<rparr>)"
    and "totals sm (r\<lparr>table := t\<rparr>) = totals sm r0"
    and "sm_get sm t = (sm_get sm (table r0))(pid \<mapsto> a)"
    and "sm_get sm (table r0) q = Some b \<Longrightarrow> sm_get sm t q = Some b"
proof -
  note D = registry_invD [OF assms(1)]
  have r: "r = r0\<lparr>cells := (cells r0)(next_cell r0 := 0), next_cell := Suc (next_cell r0)\<rparr>"
    and fresh: "fresh = next_cell r0"
    using assms(2) by (auto simp: atomic_new_def)
  have a: "a = unwrap_or (next_cell r0) (sm_get sm (table r0) pid)"
    using get_or_insert_entry [OF D(1), of pid fresh] assms(3) by (simp add: r fresh)
  show get: "sm_get sm t = (sm_get sm (table r0))(pid \<mapsto> a)"
    using get_or_insert_get [OF D(1), of pid fresh] assms(3) by (simp add: r fresh a)
  show "sm_get sm (table r0) q = Some b \<Longrightarrow> sm_get sm t q = Some b"
    by (auto simp: get a)
  have "sm_inv t"
    using get_or_insert_inv [OF D(1), of pid fresh] assms(3) by (simp add: r fresh)
  then show "registry_inv sm sm_inv (r\<lparr>table := t\<rparr>)"
    using D(2) D(3)
    by (cases "sm_get sm (table r0) pid")
       (auto simp: registry_inv_def get r a less_Suc_eq dest: D(2) split: if_splits)
  have "totals sm (r\<lparr>table := t\<rparr>) q = totals sm r0 q" for q
    using D(2) [of q] D(2) [of pid]
    by (cases "sm_get sm (table r0) pid"; cases "sm_get sm (table r0) q")
       (auto simp: totals_def registry_get_def get r a)
  then show "totals sm (r\<lparr>table := t\<rparr>) = totals sm r0" by blast
qed

lemma totals_store:
  assumes "registry_inv sm sm_inv r" and "sm_get sm (table r) pid = Some a"
  shows "totals sm (r\<lparr>cells := (cells r)(a := v)\<rparr>) = (totals sm r)(pid := v)"
proof
  fix q
  show "totals sm (r\<lparr>cells := (cells r)(a := v)\<rparr>) q = ((totals sm r)(pid := v)) q"
    using registry_invD(3) [OF assms(1), of q a pid] assms(2)
    by (cases "sm_get sm (table r) q") (auto simp: totals_def registry_get_def)
qed

lemma add_step_inv:
  assumes "add_step sm s s'" and "system_inv sm sm_inv m0 s"
  shows "system_inv sm sm_inv m0 s'"
  using assms
proof (induction rule: add_step.induct)
  case (add_call i s pid d)
  then show ?case
    using sum_list_in_flight_update [of i "threads s" "AddGet pid d"]
    by (auto simp: system_inv_def nth_list_update)
next
  case (add_get_or_insert i s pid d r fresh t a)
  note D = system_invD [OF add_get_or_insert.prems]
  note G = get_or_insert_fresh_inv [OF D(1) add_get_or_insert.hyps(3,4)]
  have "pc_ok sm t p" if "pc_ok sm (table (reg s)) p" for p
    using that G(4) by (cases p) auto
  with D add_get_or_insert.hyps G(1,2,3) show ?case
    by (auto simp: system_inv_def nth_list_update in_flight_update_same)
next
  case (add_cas_ok i s pid d a current cs v)
  note D = system_invD [OF add_cas_ok.prems]
  have cas: "cells (reg s) a = current" "cs = (cells (reg s))(a := sat_add current d)"
    using add_cas_ok.hyps(3) by (simp_all add: cas_ok_iff)
  have entry: "sm_get sm (table (reg s)) pid = Some a"
    using D(2) [OF add_cas_ok.hyps(1)] add_cas_ok.hyps(2) by simp
  have tot: "totals sm (reg s) pid = current"
    by (simp add: totals_def registry_get_def entry cas)
  have "sum_list (map in_flight ((threads s)[i := AddReturned (sat_add current d)])) + {#(pid, d)#}
      = sum_list (map in_flight (threads s))"
    using sum_list_in_flight_update [OF add_cas_ok.hyps(1), of "AddReturned (sat_add current d)"]
      add_cas_ok.hyps(2) by simp
  moreover have "totals sm ((reg s)\<lparr>cells := cs\<rparr>) = (totals sm (reg s))(pid := sat_add current d)"
    unfolding cas(2) by (rule totals_store [OF D(1) entry])
  moreover have "registry_inv sm sm_inv ((reg s)\<lparr>cells := cs\<rparr>)"
    using D(1) by (simp add: registry_inv_def)
  ultimately show ?case
    using D tot add_cas_ok.hyps(1)
    by (auto simp: system_inv_def nth_list_update apply_log_snoc legal_log_snoc fun_upd_same ac_simps)
next
  case (add_cas_fail i s pid d a current spurious cs observed)
  then show ?case
    using system_invD(2) [OF add_cas_fail.prems add_cas_fail.hyps(1)]
    by (intro system_inv_move) simp_all
next
  case (add_load i s pid d a)
  then show ?case
    using system_invD(2) [OF add_load.prems add_load.hyps(1)]
    by (intro system_inv_move) simp_all
qed (simp_all add: system_inv_move)

lemma add_steps_inv:
  "add_steps sm s s' \<Longrightarrow> system_inv sm sm_inv m0 s \<Longrightarrow> system_inv sm sm_inv m0 s'"
  by (induction rule: rtranclp_induct) (blast intro: add_step_inv)+

lemma init_system_inv:
  assumes "registry_inv sm sm_inv r"
  shows "system_inv sm sm_inv (totals sm r) (init_system r n)"
proof -
  have "sum_list (map in_flight (replicate n Idle)) = {#}"
    by (induction n) simp_all
  then show ?thesis using assms by (simp add: system_inv_def init_system_def)
qed

end

lemma unat_totals: "unat (totals sm r pid) = uj_of (registry_get sm r pid)"
  by (cases "registry_get sm r pid") (simp_all add: totals_def)

section \<open>Progress\<close>

text \<open>An allocated cell changes only when some thread commits.\<close>

lemma add_step_cells:
  "add_step sm s s' \<Longrightarrow>
     next_cell (reg s) \<le> next_cell (reg s') \<and> length (committed s) \<le> length (committed s')
     \<and> (\<forall>a < next_cell (reg s). cells (reg s') a \<noteq> cells (reg s) a
          \<longrightarrow> length (committed s) < length (committed s'))"
  by (induction rule: add_step.induct) (auto simp: atomic_new_def cas_ok_iff)

lemma add_steps_cells:
  "add_steps sm s s' \<Longrightarrow>
     next_cell (reg s) \<le> next_cell (reg s') \<and> length (committed s) \<le> length (committed s')
     \<and> (\<forall>a < next_cell (reg s). cells (reg s') a \<noteq> cells (reg s) a
          \<longrightarrow> length (committed s) < length (committed s'))"
proof (induction rule: rtranclp_induct)
  case (step s' s'')
  note S = add_step_cells [OF step.hyps(2)]
  have "length (committed s) < length (committed s'')"
    if a: "a < next_cell (reg s)" "cells (reg s'') a \<noteq> cells (reg s) a" for a
  proof (cases "cells (reg s') a = cells (reg s) a")
    case True
    then have "cells (reg s'') a \<noteq> cells (reg s') a" using a(2) by simp
    moreover have "a < next_cell (reg s')" using a(1) step.IH by linarith
    ultimately have "length (committed s') < length (committed s'')" using S by blast
    then show ?thesis using step.IH by linarith
  next
    case False
    then have "length (committed s) < length (committed s')" using a(1) step.IH by blast
    then show ?thesis using S by linarith
  qed
  with S step.IH show ?case by simp
qed simp

text \<open>A thread that is alone finishes its accumulation.\<close>

definition solo_commit :: "'t skip_map_ops \<Rightarrow> 't system \<Rightarrow> nat \<Rightarrow> u32 \<Rightarrow> u64 \<Rightarrow> bool" where
  "solo_commit sm s i pid d \<longleftrightarrow>
     (\<exists>s' v. add_steps sm s s' \<and> threads s' = (threads s)[i := AddReturned v] \<and> called s' = called s
        \<and> committed s' = committed s @ [(pid, d, v)])"

lemma solo_commit_step:
  "add_step sm s s' \<Longrightarrow> threads s' = (threads s)[i := p] \<Longrightarrow> called s' = called s \<Longrightarrow>
   committed s' = committed s \<Longrightarrow> solo_commit sm s' i pid d \<Longrightarrow> solo_commit sm s i pid d"
  unfolding solo_commit_def by (metis converse_rtranclp_into_rtranclp list_update_overwrite)

lemma solo_commit_cas_match:
  assumes "i < length (threads s)" and "threads s ! i = AddCas pid d a (cells (reg s) a)"
  shows "solo_commit sm s i pid d"
proof -
  let ?v = "sat_add (cells (reg s) a) d"
  let ?s = "s\<lparr>reg := (reg s)\<lparr>cells := (cells (reg s))(a := ?v)\<rparr>,
    threads := (threads s)[i := AddReturned ?v], committed := committed s @ [(pid, d, ?v)]\<rparr>"
  have "add_step sm s ?s"
    using assms by (rule add_cas_ok) (simp add: cas_ok_iff)
  then have "add_steps sm s ?s" by (rule r_into_rtranclp)
  moreover have "threads ?s = (threads s)[i := AddReturned ?v]" "called ?s = called s" by simp_all
  moreover have "committed ?s = committed s @ [(pid, d, ?v)]" by simp
  ultimately show ?thesis unfolding solo_commit_def by blast
qed

lemma solo_commit_cas:
  assumes "i < length (threads s)" and "threads s ! i = AddCas pid d a current"
  shows "solo_commit sm s i pid d"
proof (cases "cells (reg s) a = current")
  case True
  with assms have "threads s ! i = AddCas pid d a (cells (reg s) a)" by simp
  with assms(1) show ?thesis by (rule solo_commit_cas_match)
next
  case False
  then have "compare_exchange_weak [False] (cells (reg s)) a current (sat_add current d)
      = (cells (reg s), Inl (cells (reg s) a))"
    by (simp add: compare_exchange_weak_def)
  from add_cas_fail [OF assms this] show ?thesis
    by (rule solo_commit_step) (use assms(1) in \<open>auto intro: solo_commit_cas_match\<close>)
qed

lemma solo_commit_load:
  assumes "i < length (threads s)" and "threads s ! i = AddLoad pid d a"
  shows "solo_commit sm s i pid d"
  using add_load [OF assms]
  by (rule solo_commit_step) (use assms(1) in \<open>auto intro: solo_commit_cas\<close>)

lemma solo_commit_insert:
  assumes "i < length (threads s)" and "threads s ! i = AddInsert pid d"
  shows "solo_commit sm s i pid d"
proof -
  obtain r fresh where r: "atomic_new (reg s) 0 = (r, fresh)" by fastforce
  obtain t a where t: "sm_get_or_insert sm (table r) pid fresh = (t, a)" by fastforce
  from add_get_or_insert [OF assms r t] show ?thesis
    by (rule solo_commit_step) (use assms(1) in \<open>auto intro: solo_commit_load\<close>)
qed

lemma solo_commit_get:
  assumes "i < length (threads s)" and "threads s ! i = AddGet pid d"
  shows "solo_commit sm s i pid d"
proof (cases "sm_get sm (table (reg s)) pid")
  case None
  from add_get_miss [OF assms None] show ?thesis
    by (rule solo_commit_step) (use assms(1) in \<open>auto intro: solo_commit_insert\<close>)
next
  case (Some a)
  from add_get_hit [OF assms Some] show ?thesis
    by (rule solo_commit_step) (use assms(1) in \<open>auto intro: solo_commit_load\<close>)
qed

lemmas solo_commits = solo_commit_get solo_commit_insert solo_commit_load solo_commit_cas

lemma solo_finishes:
  assumes "i < length (threads s)" and "in_flight (threads s ! i) = {#(pid, d)#}"
  shows "\<exists>s' v. add_steps sm s s' \<and> threads s' = (threads s)[i := AddReturned v] \<and> called s' = called s
           \<and> committed s' = committed s @ [(pid, d, v)]"
  using assms solo_commits [OF assms(1)] unfolding solo_commit_def [symmetric]
  by (cases "threads s ! i") auto

text \<open>So every sequence of calls has a schedule in which all threads return.\<close>

lemma calls_have_a_schedule:
  "0 < n \<Longrightarrow> \<exists>s. add_steps sm (init_system r n) s \<and> threads s = replicate n Idle \<and> called s = ps"
proof (induction ps rule: rev_induct)
  case Nil
  then show ?case by (intro exI [of _ "init_system r n"]) (simp add: init_system_def)
next
  case (snoc p ps)
  obtain pid d where p: "p = (pid, d)" by (cases p)
  obtain s where s: "add_steps sm (init_system r n) s" "threads s = replicate n Idle" "called s = ps"
    using snoc by blast
  let ?s1 = "s\<lparr>threads := (threads s)[0 := AddGet pid d], called := called s @ [(pid, d)]\<rparr>"
  have call: "add_step sm s ?s1" using snoc.prems s(2) by (intro add_call) simp_all
  obtain s2 v where s2: "add_steps sm ?s1 s2" "threads s2 = (threads ?s1)[0 := AddReturned v]" "called s2 = called ?s1"
    using solo_finishes [of 0 ?s1 pid d sm] snoc.prems s(2) by auto
  let ?s3 = "s2\<lparr>threads := (threads s2)[0 := Idle]\<rparr>"
  have ret: "add_step sm s2 ?s3" using snoc.prems s(2) s2(2) by (intro add_return [where v = v]) simp_all
  have "add_steps sm (init_system r n) ?s3"
    using s(1) call s2(1) ret by (meson rtranclp.rtrancl_into_rtrancl rtranclp_trans)
  moreover have "threads ?s3 = replicate n Idle"
    using s(2) s2(2) snoc.prems by (simp add: list_update_same_conv)
  moreover have "called ?s3 = ps @ [p]" using s2(3) s(3) p by simp
  ultimately show ?case by blast
qed

section \<open>A concrete run\<close>

text \<open>
  Two threads on an empty registry; the first accumulates 5 micro-joules on process 7 and
  has just loaded the freshly inserted cell.
\<close>

definition run_state ::
  "(u32 \<times> cell_ref) list \<Rightarrow> u64 \<Rightarrow> pc list \<Rightarrow> (u32 \<times> u64 \<times> u64) list \<Rightarrow> (u32 \<times> u64 option) list
     \<Rightarrow> (u32 \<times> cell_ref) list system" where
  "run_state t v ts co rm =
     \<lparr>reg = \<lparr>table = t, cells = (\<lambda>_. 0)(0 := v), next_cell = 1\<rparr>,
      threads = ts, called = [(7, 5)], committed = co, removed = rm\<rparr>"

abbreviation empty_system :: "(u32 \<times> cell_ref) list system" where
  "empty_system \<equiv> init_system (registry_new btree_skip_map) 2"

lemma run_to_cas:
  "add_steps btree_skip_map empty_system (run_state [(7, 0)] 0 [AddCas 7 5 0 0, Idle] [] [])"
proof -
  let ?r = "\<lparr>table = [], cells = (\<lambda>_. 0), next_cell = 0\<rparr> :: (u32 \<times> cell_ref) list AmalgafyRegistry"
  let ?s = "\<lambda>ts. \<lparr>reg = ?r, threads = ts, called = [(7, 5)], committed = [], removed = []\<rparr>"
  have start: "empty_system
      = \<lparr>reg = ?r, threads = [Idle, Idle], called = [], committed = [], removed = []\<rparr>"
    by (simp add: init_system_def registry_new_def bt_new_def numeral_2_eq_2)
  have "add_steps btree_skip_map empty_system empty_system" by simp
  also have "add_step btree_skip_map empty_system (?s [AddGet 7 5, Idle])"
    unfolding start using add_call [of 0 "\<lparr>reg = ?r, threads = [Idle, Idle], called = [],
      committed = [], removed = []\<rparr>" btree_skip_map 7 5] by simp
  also have "add_step btree_skip_map (?s [AddGet 7 5, Idle]) (?s [AddInsert 7 5, Idle])"
    using add_get_miss [of 0 "?s [AddGet 7 5, Idle]" 7 5 btree_skip_map] by simp
  also have "add_step btree_skip_map (?s [AddInsert 7 5, Idle])
      (run_state [(7, 0)] 0 [AddLoad 7 5 0, Idle] [] [])"
    using add_get_or_insert [of 0 "?s [AddInsert 7 5, Idle]" 7 5
        "\<lparr>table = [], cells = (\<lambda>_. 0)(0 := 0), next_cell = 1\<rparr>" 0 btree_skip_map "[(7, 0)]" 0]
    by (simp add: atomic_new_def run_state_def)
  also have "add_step btree_skip_map (run_state [(7, 0)] 0 [AddLoad 7 5 0, Idle] [] [])
      (run_state [(7, 0)] 0 [AddCas 7 5 0 0, Idle] [] [])"
    using add_load [of 0 "run_state [(7, 0)] 0 [AddLoad 7 5 0, Idle] [] []" 7 5 0 btree_skip_map]
    by (simp add: run_state_def)
  finally show ?thesis .
qed

lemma run_cas:
  "add_step btree_skip_map (run_state t 0 [AddCas 7 5 0 0, Idle] [] rm)
     (run_state t 5 [AddReturned 5, Idle] [(7, 5, 5)] rm)"
  using add_cas_ok [of 0 "run_state t 0 [AddCas 7 5 0 0, Idle] [] rm" 7 5 0 0
      "(\<lambda>_. 0)(0 := 5)" 0 btree_skip_map]
  by (simp add: run_state_def cas_ok_iff fun_eq_iff)

lemma run_return:
  "add_step btree_skip_map (run_state t 5 [AddReturned 5, Idle] co rm) (run_state t 5 [Idle, Idle] co rm)"
  using add_return [of 0 "run_state t 5 [AddReturned 5, Idle] co rm" 5 btree_skip_map]
  by (simp add: run_state_def)

lemma run_to_end:
  "add_steps btree_skip_map empty_system (run_state [(7, 0)] 5 [Idle, Idle] [(7, 5, 5)] [])"
  using run_to_cas run_cas run_return by (meson rtranclp.rtrancl_into_rtrancl)

lemma registry_inv_empty: "registry_inv btree_skip_map bt_inv (registry_new btree_skip_map)"
  by (rule btree.registry_inv_new)

lemma add_steps_registry_steps: "add_steps sm s s' \<Longrightarrow> registry_steps sm s s'"
  by (metis (no_types, lifting) mono_rtranclp step_add)

text \<open>When all threads have returned, every delta called for is in the totals.\<close>

lemma quiescent_totals:
  assumes "skip_map sm sm_inv" and "registry_inv sm sm_inv r"
    and "add_steps sm (init_system r n) s" and "\<forall>p \<in> set (threads s). p = Idle"
  shows "registry_inv sm sm_inv (reg s)"
    and "uj_of (registry_get sm (reg s) pid)
           = min (uj_of (registry_get sm r pid) + sum_for pid (called s)) u64_max"
proof -
  have inv: "system_inv sm sm_inv (totals sm r) s"
    using skip_map.add_steps_inv [OF assms(1,3) skip_map.init_system_inv [OF assms(1,2)]] .
  have "sum_list (map in_flight (threads s)) = {#}"
    using assms(4) by (rule in_flight_idle)
  then have "mset (called s) = mset (deltas (committed s))"
    using system_invD(5) [OF inv] by simp
  then have "sum_for pid (called s) = sum_for pid (deltas (committed s))"
    by (rule sum_for_mset_cong)
  then show "uj_of (registry_get sm (reg s) pid)
      = min (uj_of (registry_get sm r pid) + sum_for pid (called s)) u64_max"
    using system_invD(4) [OF inv] unat_apply_log [of "totals sm r" "committed s" pid]
    by (simp flip: unat_totals)
qed (rule system_invD(1) [OF skip_map.add_steps_inv [OF assms(1,3) skip_map.init_system_inv [OF assms(1,2)]]])

section \<open>A removal in the middle of an accumulation\<close>

text \<open>
  Two threads, the first inside an accumulation, with nothing committed yet.  On any
  well-formed registry the first thread gets as far as its load, with the entry of the process
  in the table and no other process changed.
\<close>

abbreviation race_state :: "'t AmalgafyRegistry \<Rightarrow> pc list \<Rightarrow> u32 \<Rightarrow> u64 \<Rightarrow> 't system" where
  "race_state r ts pid d \<equiv> \<lparr>reg = r, threads = ts, called = [(pid, d)], committed = [], removed = []\<rparr>"

definition race_ready ::
  "'t skip_map_ops \<Rightarrow> ('t \<Rightarrow> bool) \<Rightarrow> 't AmalgafyRegistry \<Rightarrow> u32 \<Rightarrow> 't AmalgafyRegistry \<Rightarrow> cell_ref \<Rightarrow> bool" where
  "race_ready sm sm_inv r pid r' a \<longleftrightarrow>
     registry_inv sm sm_inv r' \<and> sm_get sm (table r') pid = Some a
     \<and> cells r' a = unwrap_or 0 (registry_get sm r pid)
     \<and> (\<forall>q. q \<noteq> pid \<longrightarrow> registry_get sm r' q = registry_get sm r q)"

lemma race_call: "add_step sm (init_system r 2) (race_state r [AddGet pid d, Idle] pid d)"
  using add_call [of 0 "init_system r 2" sm pid d] by (simp add: init_system_def numeral_2_eq_2)

context skip_map
begin

lemma race_hit:
  assumes "registry_inv sm sm_inv r" and "sm_get sm (table r) pid = Some a"
  shows "race_ready sm sm_inv r pid r a
    \<and> add_steps sm (init_system r 2) (race_state r [AddLoad pid d a, Idle] pid d)"
proof
  show "race_ready sm sm_inv r pid r a" using assms by (simp add: race_ready_def registry_get_def)
  have "add_step sm (race_state r [AddGet pid d, Idle] pid d) (race_state r [AddLoad pid d a, Idle] pid d)"
    using add_get_hit [of 0 "race_state r [AddGet pid d, Idle] pid d" pid d sm a] assms(2) by simp
  then show "add_steps sm (init_system r 2) (race_state r [AddLoad pid d a, Idle] pid d)"
    by (meson race_call converse_rtranclp_into_rtranclp r_into_rtranclp)
qed

lemma race_miss:
  assumes "registry_inv sm sm_inv r" and "sm_get sm (table r) pid = None"
  shows "\<exists>r'. race_ready sm sm_inv r pid r' (next_cell r)
    \<and> add_steps sm (init_system r 2) (race_state r' [AddLoad pid d (next_cell r), Idle] pid d)"
proof -
  note D = registry_invD(1) [OF assms(1)]
  obtain t where ins: "sm_get_or_insert sm (table r) pid (next_cell r) = (t, next_cell r)"
    using get_or_insert_entry [OF D, of pid "next_cell r"] assms(2)
    by (cases "sm_get_or_insert sm (table r) pid (next_cell r)") simp
  let ?r = "r\<lparr>cells := (cells r)(next_cell r := 0), next_cell := Suc (next_cell r), table := t\<rparr>"
  have added: "?r = fst (add_micro_joules sm r pid 0)"
    using add_micro_joules_miss [OF D assms(2), of 0] by (simp add: ins)
  have "registry_get sm ?r q = registry_get sm r q" if "q \<noteq> pid" for q
    using that unfolding added by (simp add: registry_get_add [OF assms(1)])
  moreover have "sm_get sm t pid = Some (next_cell r)"
    using get_or_insert_get [OF D, of pid "next_cell r"] by (simp add: ins assms(2))
  moreover have "registry_inv sm sm_inv ?r" unfolding added by (rule registry_inv_add [OF assms(1)])
  ultimately have "race_ready sm sm_inv r pid ?r (next_cell r)"
    using assms(2) by (simp add: race_ready_def registry_get_def)
  moreover have "add_step sm (race_state r [AddGet pid d, Idle] pid d) (race_state r [AddInsert pid d, Idle] pid d)"
    using add_get_miss [of 0 "race_state r [AddGet pid d, Idle] pid d" pid d sm] assms(2) by simp
  moreover have "add_step sm (race_state r [AddInsert pid d, Idle] pid d)
      (race_state ?r [AddLoad pid d (next_cell r), Idle] pid d)"
    using add_get_or_insert [of 0 "race_state r [AddInsert pid d, Idle] pid d" pid d _ _ sm t "next_cell r"] ins
    by (simp add: atomic_new_def)
  ultimately show ?thesis
    by (meson race_call converse_rtranclp_into_rtranclp r_into_rtranclp)
qed

lemma race_to_load:
  assumes "registry_inv sm sm_inv r"
  shows "\<exists>r' a. race_ready sm sm_inv r pid r' a
    \<and> add_steps sm (init_system r 2) (race_state r' [AddLoad pid d a, Idle] pid d)"
  using race_hit [OF assms] race_miss [OF assms] by (cases "sm_get sm (table r) pid") blast+

text \<open>There the second thread removes the entry, and the first one commits onto the orphaned cell.\<close>

lemma race_finish:
  assumes "race_ready sm sm_inv r pid r' a" and v: "v = unwrap_or 0 (registry_get sm r pid)"
  shows "registry_steps sm (race_state r' [AddLoad pid d a, Idle] pid d)
    \<lparr>reg = r'\<lparr>table := fst (sm_remove sm (table r') pid), cells := (cells r')(a := sat_add v d)\<rparr>,
     threads = [Idle, Idle], called = [(pid, d)], committed = [(pid, d, sat_add v d)], removed = [(pid, Some v)]\<rparr>"
    (is "registry_steps sm ?start ?end")
proof -
  have a: "sm_inv (table r')" "sm_get sm (table r') pid = Some a" "cells r' a = v"
    using assms registry_invD(1) by (auto simp: race_ready_def)
  let ?t = "fst (sm_remove sm (table r') pid)"
  have t: "sm_remove sm (table r') pid = (?t, Some a)"
    using remove_entry [OF a(1), of pid] a(2) by (simp add: prod_eq_iff)
  let ?s = "\<lambda>t cs ts co rm. \<lparr>reg = r'\<lparr>table := t, cells := cs\<rparr>, threads = ts, called = [(pid, d)],
      committed = co, removed = rm\<rparr>"
  let ?add = "AddCas pid d a v" and ?cs = "cells r'" and ?cs' = "(cells r')(a := sat_add v d)"
  have "registry_steps sm ?start (?s (table r') ?cs [AddLoad pid d a, Idle] [] [])" by simp
  also have "registry_step sm \<dots> (?s (table r') ?cs [?add, Idle] [] [])"
    using step_add [OF add_load [of 0 "?s (table r') ?cs [AddLoad pid d a, Idle] [] []" pid d a sm]] a(3) by simp
  also have "registry_step sm \<dots> (?s (table r') ?cs [?add, RemoveTable pid] [] [])"
    using remove_call [of 1 "?s (table r') ?cs [?add, Idle] [] []" sm pid] by simp
  also have "registry_step sm \<dots> (?s ?t ?cs [?add, RemoveLoad pid (Some a)] [] [])"
    using remove_table [of 1 "?s (table r') ?cs [?add, RemoveTable pid] [] []" pid sm ?t "Some a"] t by simp
  also have "registry_step sm \<dots> (?s ?t ?cs [?add, Idle] [] [(pid, Some v)])"
    using remove_load [of 1 "?s ?t ?cs [?add, RemoveLoad pid (Some a)] [] []" pid "Some a" sm] a(3) by simp
  also have "registry_step sm \<dots> (?s ?t ?cs' [AddReturned (sat_add v d), Idle] [(pid, d, sat_add v d)] [(pid, Some v)])"
    using step_add [OF add_cas_ok [of 0 "?s ?t ?cs [?add, Idle] [] [(pid, Some v)]" pid d a v ?cs' v sm]] a(3)
    by (simp add: cas_ok_iff)
  also have "registry_step sm \<dots> ?end"
    using step_add [OF add_return [of 0 "?s ?t ?cs' [AddReturned (sat_add v d), Idle]
        [(pid, d, sat_add v d)] [(pid, Some v)]" "sat_add v d" sm]] by simp
  finally show ?thesis .
qed

lemma race_end_contents:
  assumes "race_ready sm sm_inv r pid r' a"
  shows "registry_get sm (r'\<lparr>table := fst (sm_remove sm (table r') pid), cells := (cells r')(a := x)\<rparr>)
    = (registry_get sm r)(pid := None)"
proof
  fix q
  have inv: "registry_inv sm sm_inv r'" and a: "sm_get sm (table r') pid = Some a"
    and other: "q \<noteq> pid \<Longrightarrow> registry_get sm r' q = registry_get sm r q"
    using assms by (auto simp: race_ready_def)
  note D = registry_invD [OF inv]
  have "registry_get sm (r'\<lparr>table := fst (sm_remove sm (table r') pid), cells := (cells r')(a := x)\<rparr>) q
      = registry_get sm r' q" if "q \<noteq> pid"
    using that D(3) [of q a pid] a
    by (cases "sm_get sm (table r') q") (auto simp: registry_get_def remove_get [OF D(1)])
  then show "registry_get sm (r'\<lparr>table := fst (sm_remove sm (table r') pid), cells := (cells r')(a := x)\<rparr>) q
      = ((registry_get sm r)(pid := None)) q"
    using other by (cases "q = pid") (simp_all add: registry_get_def remove_get [OF D(1)])
qed

end

section \<open>Properties\<close>

text \<open>
  C1.  Linearisability.  In every state that any number of threads reaches by
  accumulating concurrently, under any schedule and any spurious failures, the committed
  accumulations in commit order are a legal sequential history with exactly the returned
  values, and the registry holds the result of that history.
\<close>

theorem add_micro_joules_linearizable:
  assumes "skip_map sm sm_inv" and "registry_inv sm sm_inv r"
    and "add_steps sm (init_system r n) s"
  shows "registry_inv sm sm_inv (reg s)
    \<and> legal_log (totals sm r) (committed s)
    \<and> totals sm (reg s) = apply_log (totals sm r) (committed s)"
  using skip_map.add_steps_inv [OF assms(1,3) skip_map.init_system_inv [OF assms(1,2)]]
  by (simp add: system_inv_def)

theorem add_micro_joules_linearizable_witness:
  "totals btree_skip_map (reg (run_state [(7, 0)] 5 [Idle, Idle] [(7, 5, 5)] []))
     = apply_log (totals btree_skip_map (registry_new btree_skip_map)) [(7, 5, 5)]"
  using add_micro_joules_linearizable [OF btree.skip_map_axioms registry_inv_empty run_to_end]
  by (simp add: run_state_def)

text \<open>
  C2.  No delta is lost.  When all threads have returned, every process's total is its
  initial total plus the sum of all the deltas that were called for on it (saturating):
  racing first insertions of a process accumulate onto one cell.
\<close>

theorem concurrent_adds_lose_no_delta:
  assumes "skip_map sm sm_inv" and "registry_inv sm sm_inv r"
    and "add_steps sm (init_system r n) s" and "\<forall>p \<in> set (threads s). p = Idle"
  shows "uj_of (registry_get sm (reg s) pid)
           = min (uj_of (registry_get sm r pid) + sum_for pid (called s)) u64_max"
  using assms by (rule quiescent_totals(2))

theorem concurrent_adds_lose_no_delta_witness:
  "uj_of (registry_get btree_skip_map (reg (run_state [(7, 0)] 5 [Idle, Idle] [(7, 5, 5)] [])) 7) = 5"
  using concurrent_adds_lose_no_delta [OF btree.skip_map_axioms registry_inv_empty run_to_end, of 7]
  by (simp add: run_state_def registry_get_def registry_new_def)

text \<open>
  Lock-freedom.  If a compare-and-swap must fail because the cell no longer holds the
  value that was loaded, then some accumulation has been committed since the load.
\<close>

theorem cas_failure_means_commit:
  assumes "add_steps sm s s'" and "a < next_cell (reg s)"
    and "cells (reg s') a \<noteq> cells (reg s) a"
  shows "length (committed s) < length (committed s')"
  using add_steps_cells [OF assms(1)] assms(2,3) by blast

theorem cas_failure_means_commit_witness:
  "length (committed (run_state [(7, 0)] 0 [AddCas 7 5 0 0, Idle] [] []))
     < length (committed (run_state [(7, 0)] 5 [AddReturned 5, Idle] [(7, 5, 5)] []))"
  by (rule cas_failure_means_commit
      [OF r_into_rtranclp [where r = "add_step btree_skip_map", OF run_cas], of 0])
     (simp_all add: run_state_def)



text \<open>
  C36.  A concurrent removal can lose a delta, in every registry and for every process and
  delta: there is a schedule of one accumulation and one removal of the same process, each of
  them completed, in which the accumulation returns the old total plus the delta, but the
  removal reports only the old total, the registry no longer tracks the process and holds what
  it held before for all others.  So the delta is neither in the registry nor in what the
  removal returned.
\<close>

theorem concurrent_remove_loses_delta:
  assumes "skip_map sm sm_inv" and "registry_inv sm sm_inv r"
    and "v = unwrap_or 0 (registry_get sm r pid)"
  shows "\<exists>s. registry_steps sm (init_system r 2) s
     \<and> threads s = [Idle, Idle]
     \<and> called s = [(pid, d)] \<and> committed s = [(pid, d, sat_add v d)] \<and> removed s = [(pid, Some v)]
     \<and> registry_get sm (reg s) = (registry_get sm r)(pid := None)"
proof -
  obtain r' a where ready: "race_ready sm sm_inv r pid r' a"
    and run: "add_steps sm (init_system r 2) (race_state r' [AddLoad pid d a, Idle] pid d)"
    using skip_map.race_to_load [OF assms(1,2)] by blast
  note skip_map.race_finish [OF assms(1) ready assms(3), of d]
  then have "registry_steps sm (init_system r 2)
    \<lparr>reg = r'\<lparr>table := fst (sm_remove sm (table r') pid), cells := (cells r')(a := sat_add v d)\<rparr>,
     threads = [Idle, Idle], called = [(pid, d)], committed = [(pid, d, sat_add v d)], removed = [(pid, Some v)]\<rparr>"
    using add_steps_registry_steps [OF run] by (meson rtranclp_trans)
  then show ?thesis
    by (intro exI conjI) (assumption, simp_all add: skip_map.race_end_contents [OF assms(1) ready])
qed

theorem concurrent_remove_loses_delta_witness:
  "\<exists>s. registry_steps btree_skip_map (init_system example_registry 2) s \<and> threads s = [Idle, Idle]
     \<and> called s = [(9, 5)] \<and> committed s = [(9, 5, 15)] \<and> removed s = [(9, Some 10)]
     \<and> registry_get btree_skip_map (reg s) 9 = None \<and> registry_get btree_skip_map (reg s) 1024 = Some 250"
proof -
  have nine: "unwrap_or 0 (registry_get btree_skip_map example_registry 9) = 10"
    and other: "registry_get btree_skip_map example_registry 1024 = Some 250"
    by (simp_all add: example_registry_eq registry_get_def bt_get_def)
  have "sat_add 10 5 = (15 :: u64)" by (simp add: sat_add_def)
  moreover obtain s where s: "registry_steps btree_skip_map (init_system example_registry 2) s"
    "threads s = [Idle, Idle]" "called s = [(9, 5)]" "committed s = [(9, 5, sat_add 10 5)]" "removed s = [(9, Some 10)]"
    "registry_get btree_skip_map (reg s) = (registry_get btree_skip_map example_registry)(9 := None)"
    using concurrent_remove_loses_delta [OF btree.skip_map_axioms registry_inv_example nine [symmetric], of 5] by blast
  ultimately show ?thesis using other by (intro exI [of _ s]) simp
qed

end
