(* ===== verification/Registry_Readers.thy ===== *)
theory Registry_Readers
  imports Registry_Concurrent
begin

text \<open>
  Readers of the registry while other threads accumulate, \<open>get\<close>, \<open>snapshot\<close> and
  \<open>total_micro_joules\<close> of \<open>src/core/registry.rs\<close>.  A walk over the table is not atomic: the
  iterator moves to the next entry above its position, then loads that entry's cell, and
  any number of steps of other threads may happen before and between the two.  The
  relation \<open>scan\<close> describes such a walk; the environment's steps are those of
  \<open>Registry_Concurrent\<close>.

  Nothing read is out of date or ahead of its time: the walk is sorted, misses no process
  that was tracked when it began, and each value, like the total, lies between the one at
  the beginning and the one at the end.
\<close>

section \<open>The walk\<close>

text \<open>The entry an iterator at a position moves to.\<close>

definition next_entry :: "'t skip_map_ops \<Rightarrow> 't \<Rightarrow> u32 option \<Rightarrow> (u32 \<times> cell_ref) option" where
  "next_entry sm t pos = find (\<lambda>(k, _). case pos of None \<Rightarrow> True | Some p \<Rightarrow> p < k) (sm_iter sm t)"

inductive scan ::
  "'t skip_map_ops \<Rightarrow> 't system \<Rightarrow> u32 option \<Rightarrow> 't system \<Rightarrow> (u32 \<times> u64) list \<Rightarrow> bool" for sm where
  scan_end: "add_steps sm s s' \<Longrightarrow> next_entry sm (table (reg s')) pos = None \<Longrightarrow> scan sm s pos s' []"
| scan_next: "add_steps sm s s1 \<Longrightarrow> next_entry sm (table (reg s1)) pos = Some (pid, a) \<Longrightarrow>
    add_steps sm s1 s2 \<Longrightarrow> scan sm s2 (Some pid) s' vs \<Longrightarrow>
    scan sm s pos s' ((pid, cells (reg s2) a) # vs)"

text \<open>A snapshot is the list of what the walk read; the total sums it up with saturation.\<close>

definition scan_total :: "(u32 \<times> u64) list \<Rightarrow> u64" where
  "scan_total vs = fold (\<lambda>(_, v) total_uj. saturating_add_value total_uj v) vs 0"

section \<open>Totals only grow\<close>

lemma sat_add_ge: "a \<le> sat_add a b" for a b :: u64
  using unat_u64_le [of a] by (simp add: word_le_nat_alt u64_nat)

lemma apply_log_ge: "m pid \<le> apply_log m log pid"
proof (induction m log rule: apply_log.induct)
  case (2 m p d v log)
  have "m pid \<le> (m(p := sat_add (m p) d)) pid" by (simp add: sat_add_ge)
  from order_trans [OF this 2] show ?case by (simp del: fun_upd_apply)
qed simp

lemma apply_log_append: "apply_log m (log @ log') = apply_log (apply_log m log) log'"
  by (induction m log rule: apply_log.induct) (simp_all del: fun_upd_apply)

lemma add_step_committed: "add_step sm s s' \<Longrightarrow> \<exists>log. committed s' = committed s @ log"
  by (induction rule: add_step.induct) simp_all

lemma add_steps_committed: "add_steps sm s s' \<Longrightarrow> \<exists>log. committed s' = committed s @ log"
proof (induction rule: rtranclp_induct)
  case (step s1 s2)
  then show ?case using add_step_committed [OF step.hyps(2)] by fastforce
qed simp

context skip_map
begin

lemma add_step_entry:
  assumes "add_step sm s s'" and "system_inv sm sm_inv m0 s" and "sm_get sm (table (reg s)) pid = Some a"
  shows "sm_get sm (table (reg s')) pid = Some a"
  using assms
proof (induction rule: add_step.induct)
  case (add_get_or_insert i s p d r fresh t b)
  show ?case
    using get_or_insert_fresh_inv(4) [OF system_invD(1) [OF add_get_or_insert.prems(1)]
        add_get_or_insert.hyps(3,4) add_get_or_insert.prems(2)] by simp
qed simp_all

text \<open>Along any run of accumulations an entry keeps its cell and its total never decreases.\<close>

lemma add_steps_grow:
  assumes "add_steps sm s s'" and "system_inv sm sm_inv m0 s"
  shows "system_inv sm sm_inv m0 s'"
    and "sm_get sm (table (reg s)) pid = Some a \<Longrightarrow> sm_get sm (table (reg s')) pid = Some a"
    and "totals sm (reg s) pid \<le> totals sm (reg s') pid"
proof -
  show inv: "system_inv sm sm_inv m0 s'" by (rule add_steps_inv [OF assms])
  show "sm_get sm (table (reg s)) pid = Some a \<Longrightarrow> sm_get sm (table (reg s')) pid = Some a"
    using assms
  proof (induction rule: rtranclp_induct)
    case (step s1 s2)
    then show ?case using add_step_entry add_steps_inv by blast
  qed simp
  obtain log where "committed s' = committed s @ log" using add_steps_committed [OF assms(1)] by blast
  then show "totals sm (reg s) pid \<le> totals sm (reg s') pid"
    by (simp add: system_invD(4) [OF assms(2)] system_invD(4) [OF inv] apply_log_append apply_log_ge)
qed

section \<open>One move of the iterator\<close>

abbreviation beyond :: "u32 option \<Rightarrow> u32 \<Rightarrow> bool" where
  "beyond pos k \<equiv> case pos of None \<Rightarrow> True | Some p \<Rightarrow> p < k"

lemma next_entry_Some:
  assumes "sm_inv t" and "next_entry sm t pos = Some (pid, a)"
  shows "sm_get sm t pid = Some a" and "beyond pos pid"
    and "sm_get sm t q \<noteq> None \<Longrightarrow> beyond pos q \<Longrightarrow> pid \<le> q"
proof -
  obtain i where i: "i < length (sm_iter sm t)" "sm_iter sm t ! i = (pid, a)" "beyond pos pid"
    and least: "\<And>j. j < i \<Longrightarrow> \<not> beyond pos (fst (sm_iter sm t ! j))"
    using assms(2) unfolding next_entry_def find_Some_iff by (fastforce simp: case_prod_unfold)
  have sorted: "sorted_wrt (<) (map fst (sm_iter sm t))" by (rule iter_sorted [OF assms(1)])
  then have "distinct (map fst (sm_iter sm t))" using strict_sorted_iff by blast
  then show "sm_get sm t pid = Some a"
    using i(1,2) by (metis get_iter [OF assms(1)] map_of_eq_Some_iff nth_mem)
  show "beyond pos pid" by (rule i(3))
  show "pid \<le> q" if "sm_get sm t q \<noteq> None" "beyond pos q"
  proof -
    have "q \<in> fst ` set (sm_iter sm t)"
      using that(1) by (simp add: get_iter [OF assms(1)] map_of_eq_None_iff)
    then obtain j where j: "j < length (sm_iter sm t)" "fst (sm_iter sm t ! j) = q"
      by (metis imageE in_set_conv_nth)
    then have "i \<le> j" using least [of j] that(2) by (metis not_le)
    then show ?thesis
      using sorted_wrt_nth_less [OF sorted, of i j] i(1,2) j by (cases "i = j") auto
  qed
qed

lemma next_entry_None:
  assumes "sm_inv t" and "next_entry sm t pos = None" and "sm_get sm t q \<noteq> None"
  shows "\<not> beyond pos q"
proof -
  obtain a where "(q, a) \<in> set (sm_iter sm t)"
    using assms(1,3) by (auto simp: get_iter dest: map_of_SomeD)
  with assms(2) show ?thesis
    unfolding next_entry_def find_None_iff by fastforce
qed

section \<open>What a walk reads\<close>

lemma scan_reads:
  assumes "scan sm s pos s' vs"
  shows "system_inv sm sm_inv m0 s \<Longrightarrow>
    sorted_wrt (<) (map fst vs) \<and> (\<forall>(pid, v) \<in> set vs. beyond pos pid
        \<and> totals sm (reg s) pid \<le> v \<and> v \<le> totals sm (reg s') pid \<and> registry_get sm (reg s') pid \<noteq> None)
    \<and> (\<forall>pid. registry_get sm (reg s) pid \<noteq> None \<and> beyond pos pid \<longrightarrow> pid \<in> fst ` set vs)
    \<and> (\<forall>pid. totals sm (reg s) pid \<le> totals sm (reg s') pid)
    \<and> (\<forall>pid a. sm_get sm (table (reg s)) pid = Some a \<longrightarrow> sm_get sm (table (reg s')) pid = Some a)
    \<and> system_inv sm sm_inv m0 s'"
  using assms
proof (induction rule: scan.induct)
  case (scan_end s s' pos)
  note G = add_steps_grow [OF scan_end.hyps(1) scan_end.prems]
  have "sm_inv (table (reg s'))" using registry_invD(1) system_invD(1) [OF G(1)] by blast
  then have "\<not> beyond pos pid" if "registry_get sm (reg s) pid \<noteq> None" for pid
    using next_entry_None [OF _ scan_end.hyps(2), of pid] G(2) [of pid] that
    by (auto simp: registry_get_def)
  then show ?case using G by auto
next
  case (scan_next s s1 pos pid a s2 s' vs)
  note G = add_steps_grow [OF scan_next.hyps(1) scan_next.prems]
  note H = add_steps_grow [OF scan_next.hyps(3) G(1)]
  note I = scan_next.IH [OF H(1)]
  have "sm_inv (table (reg s1))" using registry_invD(1) system_invD(1) [OF G(1)] by blast
  note N = next_entry_Some [OF this scan_next.hyps(2)]
  have v: "cells (reg s2) a = totals sm (reg s2) pid"
    using H(2) [OF N(1)] by (simp add: totals_def registry_get_def)
  have mono: "totals sm (reg s) q \<le> totals sm (reg s2) q" for q
    using G(3) H(3) order_trans by blast
  have "registry_get sm (reg s') pid \<noteq> None"
    using I H(2) [OF N(1)] by (auto simp: registry_get_def)
  moreover have "beyond pos q" if "beyond (Some pid) q" for q
    using that N(2) by (cases pos) auto
  moreover have "q = pid \<or> q \<in> fst ` set vs" if "registry_get sm (reg s) q \<noteq> None" "beyond pos q" for q
  proof (cases "q = pid")
    case False
    have "sm_get sm (table (reg s1)) q \<noteq> None" "registry_get sm (reg s2) q \<noteq> None"
      using that(1) G(2) [of q] H(2) [of q] by (auto simp: registry_get_def)
    with False N(3) [OF _ that(2)] I show ?thesis by auto
  qed simp
  ultimately show ?case
    using I N(2) v mono G(2) H(2) by (fastforce intro: order_trans)
qed

text \<open>A walk that nothing interrupts reads the sequential snapshot.\<close>

lemma find_append_skip: "(\<And>x. x \<in> set xs \<Longrightarrow> \<not> P x) \<Longrightarrow> find P (xs @ ys) = find P ys"
  by (induction xs) simp_all

lemma next_entry_suffix:
  assumes "sm_inv t" and "sm_iter sm t = pre @ e # es"
    and "pos = (if pre = [] then None else Some (fst (last pre)))"
  shows "next_entry sm t pos = Some e"
proof -
  have sorted: "sorted_wrt (<) (map fst pre @ fst e # map fst es)"
    using iter_sorted [OF assms(1)] by (simp add: assms(2))
  have "\<not> beyond pos (fst x)" if "x \<in> set pre" for x
    using that sorted by (cases pre rule: rev_cases) (auto simp: assms(3) sorted_wrt_append)
  moreover have "beyond pos (fst e)"
    using sorted by (auto simp: assms(3) sorted_wrt_append)
  ultimately show ?thesis
    by (subst next_entry_def, subst assms(2), subst find_append_skip) (simp_all add: case_prod_unfold)
qed

lemma scan_quiescent_from:
  assumes "sm_inv (table (reg s))"
  shows "sm_iter sm (table (reg s)) = pre @ es \<Longrightarrow> pos = (if pre = [] then None else Some (fst (last pre))) \<Longrightarrow>
    scan sm s pos s (map (\<lambda>(pid, a). (pid, cells (reg s) a)) es)"
proof (induction es arbitrary: pre pos)
  case Nil
  have "next_entry sm (table (reg s)) pos = None"
  proof (rule ccontr)
    assume "next_entry sm (table (reg s)) pos \<noteq> None"
    then obtain pid a where n: "next_entry sm (table (reg s)) pos = Some (pid, a)" by auto
    note N = next_entry_Some(1,2) [OF assms n]
    have "(pid, a) \<in> set pre" using N(1) Nil.prems(1) by (auto simp: get_iter [OF assms] dest: map_of_SomeD)
    then show False
      using N(2) Nil.prems iter_sorted [OF assms]
      by (cases pre rule: rev_cases) (auto simp: sorted_wrt_append)
  qed
  then show ?case by (simp add: scan_end)
next
  case (Cons e es)
  have "scan sm s (Some (fst e)) s (map (\<lambda>(pid, a). (pid, cells (reg s) a)) es)"
    using Cons.prems(1) by (intro Cons.IH [of "pre @ [e]"]) simp_all
  moreover have "next_entry sm (table (reg s)) pos = Some (fst e, snd e)"
    using next_entry_suffix [OF assms Cons.prems] by simp
  ultimately have "scan sm s pos s ((fst e, cells (reg s) (snd e)) # map (\<lambda>(pid, a). (pid, cells (reg s) a)) es)"
    by (intro scan_next [of _ s s]) simp_all
  then show ?case by (simp add: case_prod_unfold)
qed

lemma scan_quiescent:
  assumes "registry_inv sm sm_inv (reg s)"
  shows "scan sm s None s (snapshot sm (reg s))"
  unfolding snapshot_def
  by (rule scan_quiescent_from [OF registry_invD(1) [OF assms], of "[]"]) simp_all

end

section \<open>The total of a walk\<close>

lemma unat_scan_total: "unat (scan_total vs) = min (sum_list (map (\<lambda>(_, v). unat v) vs)) u64_max"
proof -
  have "fold (\<lambda>(_, v) total_uj. saturating_add_value total_uj v) vs acc
      = fold (\<lambda>x acc. sat_add acc x) (map snd vs) acc" for acc
    by (induction vs arbitrary: acc) (auto simp: saturating_add_value_def)
  then show ?thesis
    by (simp add: scan_total_def sum_list_unat_fold_sat_add comp_def case_prod_unfold)
qed

lemma scan_total_sum:
  "sorted_wrt (<) (map fst vs) \<Longrightarrow>
   unat (scan_total vs) = min (\<Sum>pid\<in>UNIV. case map_of vs pid of None \<Rightarrow> 0 | Some v \<Rightarrow> unat v) u64_max"
  by (subst unat_scan_total, subst sum_list_map_of) (simp_all add: strict_sorted_iff)

section \<open>Properties\<close>

text \<open>
  C13.  A walk over the registry that runs concurrently with any number of accumulating
  threads returns its entries in ascending order of process id, misses no process that was
  tracked when it began, and reads for each process a value between its total at the
  beginning and its total at the end.  Likewise the total the walk computes lies between
  the registry's totals at its beginning and at its end; with no other thread running the
  walk is the snapshot itself.
\<close>

theorem concurrent_walk_between:
  assumes "skip_map sm sm_inv" and "registry_inv sm sm_inv r"
    and "add_steps sm (init_system r n) s" and "scan sm s None s' vs"
  shows "sorted_wrt (<) (map fst vs)
    \<and> {pid. registry_get sm (reg s) pid \<noteq> None} \<subseteq> fst ` set vs
    \<and> list_all (\<lambda>(pid, v). totals sm (reg s) pid \<le> v \<and> v \<le> totals sm (reg s') pid) vs
    \<and> total_micro_joules sm (reg s) \<le> scan_total vs \<and> scan_total vs \<le> total_micro_joules sm (reg s')
    \<and> scan sm s None s (snapshot sm (reg s))"
proof -
  have inv: "system_inv sm sm_inv (totals sm r) s"
    using skip_map.add_steps_inv [OF assms(1,3)] skip_map.init_system_inv [OF assms(1,2)] by blast
  note R = skip_map.scan_reads [OF assms(1,4) inv]
  have inv': "system_inv sm sm_inv (totals sm r) s'" using R by blast
  note T = skip_map.total_micro_joules_sum [OF assms(1) system_invD(1)]
  have sorted: "sorted_wrt (<) (map fst vs)" using R by blast
  let ?read = "\<lambda>pid. case map_of vs pid of None \<Rightarrow> 0 | Some v \<Rightarrow> unat v"
  have low: "uj_of (registry_get sm (reg s) pid) \<le> ?read pid" for pid
  proof (cases "registry_get sm (reg s) pid = None")
    case False
    then obtain v where "map_of vs pid = Some v"
      using R by (cases "map_of vs pid") (auto simp: map_of_eq_None_iff)
    then show ?thesis
      using R by (auto dest!: map_of_SomeD simp flip: unat_totals simp: word_le_nat_alt)
  qed simp
  have high: "?read pid \<le> uj_of (registry_get sm (reg s') pid)" for pid
    using R by (auto split: option.split dest!: map_of_SomeD simp flip: unat_totals simp: word_le_nat_alt)
  have "total_micro_joules sm (reg s) \<le> scan_total vs"
    unfolding word_le_nat_alt T [OF inv] scan_total_sum [OF sorted]
    by (intro min.mono sum_mono) (simp_all add: low)
  moreover have "scan_total vs \<le> total_micro_joules sm (reg s')"
    unfolding word_le_nat_alt T [OF inv'] scan_total_sum [OF sorted]
    by (intro min.mono sum_mono) (simp_all add: high)
  moreover have "scan sm s None s (snapshot sm (reg s))"
    by (rule skip_map.scan_quiescent [OF assms(1) system_invD(1) [OF inv]])
  ultimately show ?thesis using R by (auto simp: list_all_iff)
qed

text \<open>In the witness the accumulation commits between the iterator's move and its load.\<close>

lemma walk_over_commit:
  "scan btree_skip_map (run_state [(7, 0)] 0 [AddCas 7 5 0 0, Idle] [] []) None
     (run_state [(7, 0)] 5 [AddReturned 5, Idle] [(7, 5, 5)] []) [(7, 5)]"
proof -
  let ?s = "run_state [(7, 0)] 0 [AddCas 7 5 0 0, Idle] [] []"
    and ?s' = "run_state [(7, 0)] 5 [AddReturned 5, Idle] [(7, 5, 5)] []"
  have "scan btree_skip_map ?s' (Some 7) ?s' []"
    by (rule scan_end) (simp_all add: next_entry_def run_state_def)
  then have "scan btree_skip_map ?s None ?s' ((7, cells (reg ?s') 0) # [])"
    by (intro scan_next [of _ ?s ?s]) (simp_all add: next_entry_def run_cas r_into_rtranclp, simp add: run_state_def)
  then show ?thesis by (simp add: run_state_def)
qed

theorem concurrent_walk_between_witness:
  "scan_total [(7, 5)] \<le> total_micro_joules btree_skip_map (reg (run_state [(7, 0)] 5 [AddReturned 5, Idle] [(7, 5, 5)] []))"
  using concurrent_walk_between [OF btree.skip_map_axioms registry_inv_empty run_to_cas walk_over_commit]
  by blast

end
