(* ===== verification/Registry_Removal.thy ===== *)
theory Registry_Removal
  imports Registry_Concurrent
begin

text \<open>
  What \<open>AmalgafyRegistry::remove\<close> does to the accounting when it races with accumulations,
  \<open>src/core/registry.rs\<close>.  Taking an entry out of the table and loading its cell are two
  steps of the machine of \<open>Registry_Concurrent\<close>, so an accumulation that already holds the
  cell may still commit to it.  The invariant follows every cell from the table through the
  hands of a remover to its removal, and balances what the cells of a process hold against
  the deltas committed for it.  Two theorems follow: under every schedule the energy
  reported for a process, by the registry and by removals together, never exceeds what was
  accumulated; and if no accumulation holds the cell at the moment a removal takes the entry
  out of the table, nothing is lost.
\<close>

section \<open>Where a cell is\<close>

datatype place =
    Live                \<comment> \<open>in the table\<close>
  | Detached nat        \<comment> \<open>taken out of the table by a thread that has yet to load it\<close>
  | Gone u64            \<comment> \<open>reported by a removal with this value\<close>

type_synonym places = "cell_ref \<Rightarrow> (u32 \<times> place) option"

text \<open>The entry an accumulation works on, once it has looked it up.\<close>

fun in_hand :: "pc \<Rightarrow> (u32 \<times> cell_ref) option" where
  "in_hand (AddLoad pid d a) = Some (pid, a)"
| "in_hand (AddCas pid d a c) = Some (pid, a)"
| "in_hand _ = None"

fun detaching :: "pc \<Rightarrow> (u32 \<times> cell_ref) option" where
  "detaching (RemoveLoad pid (Some a)) = Some (pid, a)"
| "detaching _ = None"

definition places_ok :: "'t skip_map_ops \<Rightarrow> ('t \<Rightarrow> bool) \<Rightarrow> places \<Rightarrow> 't AmalgafyRegistry \<Rightarrow> pc list \<Rightarrow> bool" where
  "places_ok sm sm_inv pl r ts \<longleftrightarrow>
     registry_inv sm sm_inv r
     \<and> (\<forall>a. pl a \<noteq> None \<longrightarrow> a < next_cell r)
     \<and> (\<forall>pid a. sm_get sm (table r) pid = Some a \<longleftrightarrow> pl a = Some (pid, Live))
     \<and> (\<forall>i pid a. i < length ts \<and> detaching (ts ! i) = Some (pid, a) \<longleftrightarrow> pl a = Some (pid, Detached i))
     \<and> (\<forall>i pid a. i < length ts \<longrightarrow> in_hand (ts ! i) = Some (pid, a) \<longrightarrow> map_option fst (pl a) = Some pid)
     \<and> (\<forall>a pid v. pl a = Some (pid, Gone v) \<longrightarrow> v \<le> cells r a)"

lemma places_okD:
  assumes "places_ok sm sm_inv pl r ts"
  shows "registry_inv sm sm_inv r"
    and "pl a = Some x \<Longrightarrow> a < next_cell r"
    and "sm_get sm (table r) pid = Some a \<longleftrightarrow> pl a = Some (pid, Live)"
    and "i < length ts \<and> detaching (ts ! i) = Some (pid, a) \<longleftrightarrow> pl a = Some (pid, Detached i)"
    and "i < length ts \<Longrightarrow> in_hand (ts ! i) = Some (pid, a) \<Longrightarrow> map_option fst (pl a) = Some pid"
    and "pl a = Some (pid, Gone v) \<Longrightarrow> v \<le> cells r a"
  using assms unfolding places_ok_def by blast+

text \<open>No accumulation works on a cell that is out of the table, and removals reported cells in full.\<close>

definition undisturbed :: "places \<Rightarrow> 't AmalgafyRegistry \<Rightarrow> pc list \<Rightarrow> bool" where
  "undisturbed pl r ts \<longleftrightarrow>
     (\<forall>i pid a. i < length ts \<longrightarrow> in_hand (ts ! i) = Some (pid, a) \<longrightarrow> pl a = Some (pid, Live))
     \<and> (\<forall>a pid v. pl a = Some (pid, Gone v) \<longrightarrow> v = cells r a)"

section \<open>The balance of a process\<close>

definition owned_uj :: "places \<Rightarrow> 't AmalgafyRegistry \<Rightarrow> u32 \<Rightarrow> nat" where
  "owned_uj pl r pid = (\<Sum>a<next_cell r. if map_option fst (pl a) = Some pid then unat (cells r a) else 0)"

fun gone_of :: "u32 \<Rightarrow> (u32 \<times> place) option \<Rightarrow> nat" where
  "gone_of pid (Some (p, Gone v)) = (if p = pid then unat v else 0)"
| "gone_of pid _ = 0"

definition gone_uj :: "places \<Rightarrow> 't AmalgafyRegistry \<Rightarrow> u32 \<Rightarrow> nat" where
  "gone_uj pl r pid = (\<Sum>a<next_cell r. gone_of pid (pl a))"

text \<open>What the removals of a process reported.\<close>

definition removed_uj :: "u32 \<Rightarrow> (u32 \<times> u64 option) list \<Rightarrow> nat" where
  "removed_uj pid rs = sum_list (map (\<lambda>(p, v). if p = pid then uj_of v else 0) rs)"

lemma removed_uj_simps [simp]:
  "removed_uj pid [] = 0"
  "removed_uj pid ((p, v) # rs) = (if p = pid then uj_of v else 0) + removed_uj pid rs"
  "removed_uj pid (rs @ rs') = removed_uj pid rs + removed_uj pid rs'"
  by (simp_all add: removed_uj_def)

definition balanced :: "(u32 \<Rightarrow> u64) \<Rightarrow> places \<Rightarrow> 't system \<Rightarrow> bool" where
  "balanced m0 pl s \<longleftrightarrow>
     (\<forall>pid. gone_uj pl (reg s) pid = removed_uj pid (removed s))
     \<and> (\<forall>pid. let credit = unat (m0 pid) + sum_for pid (deltas (committed s)) in
          owned_uj pl (reg s) pid \<le> credit \<and> (credit \<le> u64_max \<longrightarrow> owned_uj pl (reg s) pid = credit))
     \<and> mset (called s) = mset (deltas (committed s)) + sum_list (map in_flight (threads s))"

lemma balancedD:
  assumes "balanced m0 pl s"
  shows "gone_uj pl (reg s) pid = removed_uj pid (removed s)"
    and "owned_uj pl (reg s) pid \<le> unat (m0 pid) + sum_for pid (deltas (committed s))"
    and "unat (m0 pid) + sum_for pid (deltas (committed s)) \<le> u64_max \<Longrightarrow>
      owned_uj pl (reg s) pid = unat (m0 pid) + sum_for pid (deltas (committed s))"
    and "mset (called s) = mset (deltas (committed s)) + sum_list (map in_flight (threads s))"
  using assms unfolding balanced_def Let_def by blast+

lemma sum_fun_upd:
  assumes "a < (n::nat)"
  shows "(\<Sum>x<n. f ((g(a := y)) x)) + f (g a) = (\<Sum>x<n. f (g x)) + (f y :: nat)"
proof -
  have split: "(\<Sum>x<n. f (h x)) = f (h a) + (\<Sum>x\<in>{..<n} - {a}. f (h x))" for h
    using assms by (simp add: sum.remove)
  have "(\<Sum>x\<in>{..<n} - {a}. f ((g(a := y)) x)) = (\<Sum>x\<in>{..<n} - {a}. f (g x))"
    by (rule sum.cong) auto
  then show ?thesis by (simp only: split [of g] split [of "g(a := y)"] fun_upd_same ac_simps)
qed

lemma gone_uj_upd:
  assumes "a < next_cell r"
  shows "gone_uj (pl(a := y)) r pid + gone_of pid (pl a) = gone_uj pl r pid + gone_of pid y"
  unfolding gone_uj_def by (rule sum_fun_upd [OF assms, of "gone_of pid"])

lemma table_balance [simp]:
  "owned_uj pl (r\<lparr>table := t\<rparr>) = owned_uj pl r" "gone_uj pl (r\<lparr>table := t\<rparr>) = gone_uj pl r"
  by (simp_all add: owned_uj_def gone_uj_def fun_eq_iff cong: if_cong)

text \<open>Moving a cell to another place under the same owner leaves the balance.\<close>

lemma owned_uj_same_owner:
  assumes "\<And>a. map_option fst (pl' a) = map_option fst (pl a)"
  shows "owned_uj pl' r pid = owned_uj pl r pid"
  by (simp add: owned_uj_def assms)

lemma owned_uj_store:
  assumes "a < next_cell r" and "map_option fst (pl a) = Some p"
  shows "owned_uj pl (r\<lparr>cells := (cells r)(a := v)\<rparr>) pid + (if p = pid then unat (cells r a) else 0)
           = owned_uj pl r pid + (if p = pid then unat v else 0)"
proof -
  let ?f = "\<lambda>(x, c). if map_option fst x = Some pid then unat (c :: u64) else 0"
  have "(\<Sum>x<next_cell r. ?f (((\<lambda>x. (pl x, cells r x))(a := (pl a, v))) x)) + ?f (pl a, cells r a)
      = (\<Sum>x<next_cell r. ?f (pl x, cells r x)) + ?f (pl a, v)"
    using sum_fun_upd [OF assms(1), of ?f "\<lambda>x. (pl x, cells r x)" "(pl a, v)"] by simp
  moreover have "(\<Sum>x<next_cell r. ?f (((\<lambda>x. (pl x, cells r x))(a := (pl a, v))) x))
      = owned_uj pl (r\<lparr>cells := (cells r)(a := v)\<rparr>) pid"
    unfolding owned_uj_def by (auto intro: sum.cong)
  ultimately show ?thesis using assms(2) by (auto simp: owned_uj_def)
qed

lemma owned_uj_cell_le:
  assumes "a < next_cell r" and "map_option fst (pl a) = Some pid"
  shows "unat (cells r a) \<le> owned_uj pl r pid"
proof -
  have "(if map_option fst (pl a) = Some pid then unat (cells r a) else 0)
      \<le> (\<Sum>x<next_cell r. if map_option fst (pl x) = Some pid then unat (cells r x) else 0)"
    using assms(1) by (intro member_le_sum) auto
  with assms(2) show ?thesis by (simp add: owned_uj_def)
qed

section \<open>The invariant is preserved\<close>

definition tracked ::
  "'t skip_map_ops \<Rightarrow> ('t \<Rightarrow> bool) \<Rightarrow> (u32 \<Rightarrow> u64) \<Rightarrow> bool \<Rightarrow> places \<Rightarrow> 't system \<Rightarrow> bool" where
  "tracked sm sm_inv m0 quiet pl s \<longleftrightarrow>
     places_ok sm sm_inv pl (reg s) (threads s) \<and> balanced m0 pl s
     \<and> (quiet \<longrightarrow> undisturbed pl (reg s) (threads s))"

text \<open>Steps of one thread that leave the registry and the logs.\<close>

lemma nth_update: "j < length ts \<Longrightarrow> ts[i := p] ! j = (if i = j then p else ts ! j)"
  by (cases "i = j") simp_all

lemma places_ok_move:
  assumes "places_ok sm sm_inv pl r ts" and "detaching (ts ! i) = None" and "detaching p = None"
    and "\<And>pid a. in_hand p = Some (pid, a) \<Longrightarrow> map_option fst (pl a) = Some pid"
  shows "places_ok sm sm_inv pl r (ts[i := p])"
proof -
  have "j < length ts \<and> detaching (ts[i := p] ! j) = Some (pid, a)
      \<longleftrightarrow> j < length ts \<and> detaching (ts ! j) = Some (pid, a)" for j pid a
    using assms(2,3) by (auto simp: nth_update split: if_splits)
  moreover have "in_hand (ts[i := p] ! j) = Some (pid, a) \<Longrightarrow> j < length ts \<Longrightarrow> map_option fst (pl a) = Some pid"
    for j pid a
    using assms(4) places_okD(5) [OF assms(1)] by (auto simp: nth_update split: if_splits)
  ultimately show ?thesis using assms(1) by (simp add: places_ok_def)
qed

lemma undisturbed_move:
  assumes "undisturbed pl r ts" and "\<And>pid a. in_hand p = Some (pid, a) \<Longrightarrow> pl a = Some (pid, Live)"
  shows "undisturbed pl r (ts[i := p])"
  using assms unfolding undisturbed_def by (auto simp: nth_update split: if_splits)

lemma balanced_move:
  assumes "balanced m0 pl s" and "i < length (threads s)" and "in_flight (threads s ! i) = in_flight p"
  shows "balanced m0 pl (s\<lparr>threads := (threads s)[i := p]\<rparr>)"
  using assms by (simp add: balanced_def in_flight_update_same)

lemma tracked_move:
  assumes "tracked sm sm_inv m0 quiet pl s" and "i < length (threads s)"
    and "in_flight (threads s ! i) = in_flight p"
    and "detaching (threads s ! i) = None" and "detaching p = None"
    and "in_hand p = None \<or> in_hand p = in_hand (threads s ! i)
      \<or> (\<exists>pid a. in_hand p = Some (pid, a) \<and> sm_get sm (table (reg s)) pid = Some a)"
  shows "tracked sm sm_inv m0 quiet pl (s\<lparr>threads := (threads s)[i := p]\<rparr>)"
proof -
  have P: "places_ok sm sm_inv pl (reg s) (threads s)" and B: "balanced m0 pl s"
    using assms(1) by (simp_all add: tracked_def)
  have "places_ok sm sm_inv pl (reg s) ((threads s)[i := p])"
    using assms(2,6) places_okD(5) [OF P] places_okD(3) [OF P]
    by (intro places_ok_move [OF P assms(4,5)]) auto
  moreover have "undisturbed pl (reg s) ((threads s)[i := p])" if "undisturbed pl (reg s) (threads s)"
    using assms(2,6) places_okD(3) [OF P] that
    by (intro undisturbed_move [OF that]) (auto simp: undisturbed_def)
  ultimately show ?thesis
    using balanced_move [OF B assms(2,3)] assms(1) by (simp add: tracked_def)
qed

text \<open>A successful compare-and-swap credits the owner of the cell.\<close>

lemma tracked_commit:
  assumes "tracked sm sm_inv m0 quiet pl s" and "i < length (threads s)"
    and "threads s ! i = AddCas pid d a (cells (reg s) a)"
    and "v = sat_add (cells (reg s) a) d"
  shows "tracked sm sm_inv m0 quiet pl (s\<lparr>reg := (reg s)\<lparr>cells := (cells (reg s))(a := v)\<rparr>,
    threads := (threads s)[i := AddReturned v], committed := committed s @ [(pid, d, v)]\<rparr>)"
proof -
  let ?r = "(reg s)\<lparr>cells := (cells (reg s))(a := v)\<rparr>"
  have P: "places_ok sm sm_inv pl (reg s) (threads s)" and B: "balanced m0 pl s"
    using assms(1) by (simp_all add: tracked_def)
  have owner: "map_option fst (pl a) = Some pid"
    using places_okD(5) [OF P assms(2)] assms(3) by simp
  have a: "a < next_cell (reg s)" using owner places_okD(2) [OF P] by auto
  have v: "unat v = min (unat (cells (reg s) a) + unat d) u64_max" by (simp add: assms(4) u64_nat)
  have up: "cells (reg s) a \<le> v" by (simp add: word_le_nat_alt v)
  have "places_ok sm sm_inv pl ?r (threads s)"
    using P order_trans [OF _ up] unfolding places_ok_def registry_inv_def by auto
  then have P': "places_ok sm sm_inv pl ?r ((threads s)[i := AddReturned v])"
    by (rule places_ok_move) (simp_all add: assms(3))
  have "undisturbed pl ?r ((threads s)[i := AddReturned v])" if "undisturbed pl (reg s) (threads s)"
  proof -
    have "in_hand (threads s ! i) = Some (pid, a)" by (simp add: assms(3))
    with that assms(2) have "pl a = Some (pid, Live)" unfolding undisturbed_def by blast
    with that show ?thesis by (auto simp: undisturbed_def nth_update split: if_splits)
  qed
  moreover have "balanced m0 pl (s\<lparr>reg := ?r, threads := (threads s)[i := AddReturned v],
      committed := committed s @ [(pid, d, v)]\<rparr>)"
  proof -
    have "sum_list (map in_flight ((threads s)[i := AddReturned v])) + {#(pid, d)#}
        = sum_list (map in_flight (threads s))"
      using sum_list_in_flight_update [OF assms(2), of "AddReturned v"] assms(3) by simp
    then have m: "mset (called s) = mset (deltas (committed s @ [(pid, d, v)]))
        + sum_list (map in_flight ((threads s)[i := AddReturned v]))"
      using balancedD(4) [OF B] by (simp add: ac_simps)
    have own: "owned_uj pl ?r q + (if pid = q then unat (cells (reg s) a) else 0)
        = owned_uj pl (reg s) q + (if pid = q then unat v else 0)" for q
      using owned_uj_store [of a "reg s" pl pid v q] a owner by simp
    have le: "unat (cells (reg s) a) \<le> owned_uj pl (reg s) pid" using owned_uj_cell_le [of a "reg s" pl pid] a owner by simp
    have "owned_uj pl ?r q \<le> unat (m0 q) + sum_for q (deltas (committed s @ [(pid, d, v)]))
        \<and> (unat (m0 q) + sum_for q (deltas (committed s @ [(pid, d, v)])) \<le> u64_max
           \<longrightarrow> owned_uj pl ?r q = unat (m0 q) + sum_for q (deltas (committed s @ [(pid, d, v)])))" for q
      using own [of q] balancedD(2,3) [OF B, of q] v le by (cases "pid = q") auto
    moreover have "gone_uj pl ?r q = gone_uj pl (reg s) q" for q by (simp add: gone_uj_def)
    ultimately show ?thesis using balancedD(1) [OF B] m by (simp add: balanced_def Let_def)
  qed
  ultimately show ?thesis using P' assms(1) by (simp add: tracked_def)
qed

context skip_map
begin

text \<open>The slow path inserts the fresh, empty cell or finds the one another thread inserted.\<close>

lemma inserted_cell:
  assumes "places_ok sm sm_inv pl (reg s) ts" and "atomic_new (reg s) 0 = (r, fresh)"
    and "sm_get_or_insert sm (table r) pid fresh = (t, a)"
  shows "next_cell r = Suc (next_cell (reg s))" and "cells r = (cells (reg s))(next_cell (reg s) := 0)"
    and "pl (next_cell (reg s)) = None"
    and "pl a = None \<and> a = next_cell (reg s) \<and> sm_get sm (table (reg s)) pid = None \<or> pl a = Some (pid, Live)"
proof -
  have r: "next_cell r = Suc (next_cell (reg s))" "cells r = (cells (reg s))(next_cell (reg s) := 0)"
    "table r = table (reg s)" "fresh = next_cell (reg s)"
    using assms(2) by (auto simp: atomic_new_def)
  then show "next_cell r = Suc (next_cell (reg s))" "cells r = (cells (reg s))(next_cell (reg s) := 0)" by simp_all
  have a: "a = unwrap_or (next_cell (reg s)) (sm_get sm (table (reg s)) pid)"
    using get_or_insert_entry [OF registry_invD(1) [OF places_okD(1) [OF assms(1)]], of pid fresh] assms(3)
    by (simp add: r)
  show fresh: "pl (next_cell (reg s)) = None" using places_okD(2) [OF assms(1)] by (metis less_irrefl not_None_eq)
  show "pl a = None \<and> a = next_cell (reg s) \<and> sm_get sm (table (reg s)) pid = None \<or> pl a = Some (pid, Live)"
    using a fresh places_okD(3) [OF assms(1)] by (cases "sm_get sm (table (reg s)) pid") auto
qed

lemma places_ok_insert:
  assumes "places_ok sm sm_inv pl (reg s) ts" and "atomic_new (reg s) 0 = (r, fresh)"
    and "sm_get_or_insert sm (table r) pid fresh = (t, a)"
  shows "places_ok sm sm_inv (pl(a \<mapsto> (pid, Live))) (r\<lparr>table := t\<rparr>) ts"
  unfolding places_ok_def
proof (intro conjI allI impI)
  let ?r = "r\<lparr>table := t\<rparr>" and ?pl = "pl(a \<mapsto> (pid, Live))"
  note P = assms(1) and I = inserted_cell [OF assms]
  note G = get_or_insert_fresh_inv [OF places_okD(1) [OF P] assms(2,3)]
  have a_le: "a \<le> next_cell (reg s)" using I(4) places_okD(2) [OF P, of a] by (auto intro: less_imp_le)
  show "registry_inv sm sm_inv ?r" by (rule G(1))
  show "b < next_cell ?r" if "?pl b \<noteq> None" for b
    using that a_le places_okD(2) [OF P] by (auto simp: I less_Suc_eq split: if_splits)
  show "sm_get sm (table ?r) q = Some b \<longleftrightarrow> ?pl b = Some (q, Live)" for q b
    using I(4) places_okD(3) [OF P, of q b] places_okD(3) [OF P, of pid b] places_okD(3) [OF P, of pid a]
    by (auto simp: G(3))
  show "j < length ts \<and> detaching (ts ! j) = Some (q, b) \<longleftrightarrow> ?pl b = Some (q, Detached j)" for j q b
    using I(4) places_okD(4) [OF P, of j q b] by auto
  show "map_option fst (?pl b) = Some q" if "j < length ts" "in_hand (ts ! j) = Some (q, b)" for j q b
    using places_okD(5) [OF P that] I(4) by auto
  show "v \<le> cells ?r b" if "?pl b = Some (q, Gone v)" for b q v
    using that places_okD(6) [OF P, of b q v] I(3) by (auto simp: I split: if_splits)
qed

lemma tracked_insert:
  assumes "tracked sm sm_inv m0 quiet pl s" and "i < length (threads s)" and "threads s ! i = AddInsert pid d"
    and "atomic_new (reg s) 0 = (r, fresh)" and "sm_get_or_insert sm (table r) pid fresh = (t, a)"
  shows "tracked sm sm_inv m0 quiet (pl(a \<mapsto> (pid, Live)))
    (s\<lparr>reg := r\<lparr>table := t\<rparr>, threads := (threads s)[i := AddLoad pid d a]\<rparr>)"
proof -
  let ?r = "r\<lparr>table := t\<rparr>" and ?pl = "pl(a \<mapsto> (pid, Live))" and ?ts = "(threads s)[i := AddLoad pid d a]"
  have P: "places_ok sm sm_inv pl (reg s) (threads s)" and B: "balanced m0 pl s"
    using assms(1) by (simp_all add: tracked_def)
  note I = inserted_cell [OF P assms(4,5)]
  have P': "places_ok sm sm_inv ?pl ?r ?ts"
    by (rule places_ok_move [OF places_ok_insert [OF P assms(4,5)]]) (simp_all add: assms(3))
  have U: "undisturbed ?pl ?r ?ts" if "undisturbed pl (reg s) (threads s)"
  proof (rule undisturbed_move)
    show "undisturbed ?pl ?r (threads s)"
      using that I(3,4) unfolding undisturbed_def by (auto simp: I(1,2) split: if_splits)
  qed simp
  have "owned_uj ?pl ?r q = owned_uj pl (reg s) q" "gone_uj ?pl ?r q = gone_uj pl (reg s) q" for q
    using I(3,4) by (auto simp: owned_uj_def gone_uj_def I(1,2) intro!: sum.cong)
  then have "balanced m0 ?pl (s\<lparr>reg := ?r, threads := ?ts\<rparr>)"
    using B assms(2,3) by (simp add: balanced_def in_flight_update_same)
  with P' U assms(1) show ?thesis by (simp add: tracked_def)
qed

lemma tracked_remove_missing:
  assumes "tracked sm sm_inv m0 quiet pl s" and "sm_remove sm (table (reg s)) pid = (t, None)"
  shows "tracked sm sm_inv m0 quiet pl (s\<lparr>reg := (reg s)\<lparr>table := t\<rparr>\<rparr>)"
proof -
  have P: "places_ok sm sm_inv pl (reg s) (threads s)" using assms(1) by (simp add: tracked_def)
  note inv = registry_invD(1) [OF places_okD(1) [OF P]]
  have "sm_inv t" "sm_get sm t = sm_get sm (table (reg s))"
    using remove_inv [OF inv, of pid] remove_get [OF inv, of pid] remove_entry [OF inv, of pid] assms(2)
    by (auto simp: fun_eq_iff)
  then show ?thesis
    using assms(1) by (simp add: tracked_def places_ok_def registry_inv_def balanced_def undisturbed_def)
qed

text \<open>A removal detaches the entry, and then reports what its cell holds.\<close>

lemma tracked_detach:
  assumes "tracked sm sm_inv m0 quiet pl s" and "i < length (threads s)" and "threads s ! i = RemoveTable pid"
    and "sm_remove sm (table (reg s)) pid = (t, Some a)"
    and "quiet \<Longrightarrow> \<forall>j < length (threads s). \<forall>b. in_hand (threads s ! j) \<noteq> Some (pid, b)"
  shows "tracked sm sm_inv m0 quiet (pl(a \<mapsto> (pid, Detached i)))
    (s\<lparr>reg := (reg s)\<lparr>table := t\<rparr>, threads := (threads s)[i := RemoveLoad pid (Some a)]\<rparr>)"
proof -
  let ?r = "(reg s)\<lparr>table := t\<rparr>" and ?pl = "pl(a \<mapsto> (pid, Detached i))"
    and ?ts = "(threads s)[i := RemoveLoad pid (Some a)]"
  have P: "places_ok sm sm_inv pl (reg s) (threads s)" and B: "balanced m0 pl s"
    using assms(1) by (simp_all add: tracked_def)
  note inv = registry_invD [OF places_okD(1) [OF P]]
  have get: "sm_get sm t = (sm_get sm (table (reg s)))(pid := None)" "sm_get sm (table (reg s)) pid = Some a"
    using remove_get [OF inv(1), of pid] remove_entry [OF inv(1), of pid] assms(4) by simp_all
  have live: "pl a = Some (pid, Live)" using places_okD(3) [OF P] get(2) by blast
  have "sm_inv t" using remove_inv [OF inv(1), of pid] assms(4) by simp
  then have "registry_inv sm sm_inv ?r"
    using inv(2) inv(3) unfolding registry_inv_def by (auto simp: get(1) split: if_splits)
  then have P': "places_ok sm sm_inv ?pl ?r ?ts"
    unfolding places_ok_def
  proof (intro conjI allI impI)
    show "b < next_cell ?r" if "?pl b \<noteq> None" for b
      using that live places_okD(2) [OF P] by (auto split: if_splits)
    show "sm_get sm (table ?r) q = Some b \<longleftrightarrow> ?pl b = Some (q, Live)" for q b
      using places_okD(3) [OF P, of q b] live get(2) by (auto simp: get(1))
    show "j < length ?ts \<and> detaching (?ts ! j) = Some (q, b) \<longleftrightarrow> ?pl b = Some (q, Detached j)" for j q b
      using places_okD(4) [OF P, of j q b] assms(2,3) live by (auto simp: nth_update split: if_splits)
    show "map_option fst (?pl b) = Some q" if "j < length ?ts" "in_hand (?ts ! j) = Some (q, b)" for j q b
      using that places_okD(5) [OF P, of j q b] live by (auto simp: nth_update split: if_splits)
    show "v \<le> cells ?r b" if "?pl b = Some (q, Gone v)" for b q v
      using that places_okD(6) [OF P, of b q v] by (auto split: if_splits)
  qed
  have U: "undisturbed ?pl ?r ?ts" if "quiet" "undisturbed pl (reg s) (threads s)"
    using that(2) assms(5) [OF that(1)] live
    unfolding undisturbed_def by (auto simp: nth_update split: if_splits)
  have "owned_uj ?pl ?r q = owned_uj pl (reg s) q" "gone_uj ?pl ?r q = gone_uj pl (reg s) q" for q
    using live by (auto simp: owned_uj_def gone_uj_def intro!: sum.cong)
  then have "balanced m0 ?pl (s\<lparr>reg := ?r, threads := ?ts\<rparr>)"
    using B assms(2,3) by (simp add: balanced_def in_flight_update_same)
  with P' U assms(1) show ?thesis by (simp add: tracked_def)
qed

end

lemma tracked_report:
  assumes "tracked sm sm_inv m0 quiet pl s" and "i < length (threads s)"
    and "threads s ! i = RemoveLoad pid (Some a)"
  shows "tracked sm sm_inv m0 quiet (pl(a \<mapsto> (pid, Gone (cells (reg s) a))))
    (s\<lparr>threads := (threads s)[i := Idle], removed := removed s @ [(pid, Some (cells (reg s) a))]\<rparr>)"
proof -
  let ?pl = "pl(a \<mapsto> (pid, Gone (cells (reg s) a)))" and ?ts = "(threads s)[i := Idle]"
  have P: "places_ok sm sm_inv pl (reg s) (threads s)" and B: "balanced m0 pl s"
    using assms(1) by (simp_all add: tracked_def)
  have det: "pl a = Some (pid, Detached i)"
    using places_okD(4) [OF P, of i pid a] assms(2,3) by simp
  have P': "places_ok sm sm_inv ?pl (reg s) ?ts"
    unfolding places_ok_def
  proof (intro conjI allI impI)
    show "registry_inv sm sm_inv (reg s)" by (rule places_okD(1) [OF P])
    show "b < next_cell (reg s)" if "?pl b \<noteq> None" for b
      using that det places_okD(2) [OF P] by (auto split: if_splits)
    show "sm_get sm (table (reg s)) q = Some b \<longleftrightarrow> ?pl b = Some (q, Live)" for q b
      using places_okD(3) [OF P, of q b] det by auto
    show "j < length ?ts \<and> detaching (?ts ! j) = Some (q, b) \<longleftrightarrow> ?pl b = Some (q, Detached j)" for j q b
      using places_okD(4) [OF P, of j q b] places_okD(4) [OF P, of i q b] assms(2,3) det
      by (auto simp: nth_update split: if_splits)
    show "map_option fst (?pl b) = Some q" if "j < length ?ts" "in_hand (?ts ! j) = Some (q, b)" for j q b
      using that places_okD(5) [OF P, of j q b] det by (auto simp: nth_update split: if_splits)
    show "v \<le> cells (reg s) b" if "?pl b = Some (q, Gone v)" for b q v
      using that places_okD(6) [OF P, of b q v] by (auto split: if_splits)
  qed
  have U: "undisturbed ?pl (reg s) ?ts" if "undisturbed pl (reg s) (threads s)"
    using that det unfolding undisturbed_def by (auto simp: nth_update split: if_splits)
  have "a < next_cell (reg s)" using det places_okD(2) [OF P] by blast
  then have "gone_uj ?pl (reg s) q = gone_uj pl (reg s) q + (if pid = q then unat (cells (reg s) a) else 0)" for q
    using gone_uj_upd [of a "reg s" pl "Some (pid, Gone (cells (reg s) a))" q] det by simp
  moreover have "owned_uj ?pl (reg s) q = owned_uj pl (reg s) q" for q
    by (rule owned_uj_same_owner) (simp add: det)
  ultimately have "balanced m0 ?pl (s\<lparr>threads := ?ts, removed := removed s @ [(pid, Some (cells (reg s) a))]\<rparr>)"
    using B assms(2,3) by (simp add: balanced_def in_flight_update_same)
  with P' U assms(1) show ?thesis by (simp add: tracked_def)
qed

section \<open>Quiet removals\<close>

text \<open>
  A step that takes a process out of the table does so while no accumulation on that
  process is between its lookup and its compare-and-swap.
\<close>

definition detaches_quietly :: "'t system \<Rightarrow> 't system \<Rightarrow> bool" where
  "detaches_quietly s s' \<longleftrightarrow>
     (\<forall>i < length (threads s). \<forall>pid. threads s ! i = RemoveTable pid \<and> threads s' ! i \<noteq> RemoveTable pid \<longrightarrow>
        (\<forall>j < length (threads s). \<forall>a. in_hand (threads s ! j) \<noteq> Some (pid, a)))"

definition quiet_step :: "'t skip_map_ops \<Rightarrow> 't system \<Rightarrow> 't system \<Rightarrow> bool" where
  "quiet_step sm s s' \<longleftrightarrow> registry_step sm s s' \<and> detaches_quietly s s'"

abbreviation quiet_steps :: "'t skip_map_ops \<Rightarrow> 't system \<Rightarrow> 't system \<Rightarrow> bool" where
  "quiet_steps sm \<equiv> (quiet_step sm)\<^sup>*\<^sup>*"

lemma tracked_call:
  assumes "tracked sm sm_inv m0 quiet pl s" and "i < length (threads s)" and "threads s ! i = Idle"
  shows "tracked sm sm_inv m0 quiet pl
    (s\<lparr>threads := (threads s)[i := AddGet pid d], called := called s @ [(pid, d)]\<rparr>)"
proof -
  have P: "places_ok sm sm_inv pl (reg s) (threads s)" and B: "balanced m0 pl s"
    using assms(1) by (simp_all add: tracked_def)
  have "places_ok sm sm_inv pl (reg s) ((threads s)[i := AddGet pid d])"
    by (rule places_ok_move [OF P]) (simp_all add: assms(3))
  moreover have "undisturbed pl (reg s) ((threads s)[i := AddGet pid d])" if "undisturbed pl (reg s) (threads s)"
    by (rule undisturbed_move [OF that]) simp
  moreover have "balanced m0 pl (s\<lparr>threads := (threads s)[i := AddGet pid d], called := called s @ [(pid, d)]\<rparr>)"
    using B sum_list_in_flight_update [OF assms(2), of "AddGet pid d"] assms(3)
    by (simp add: balanced_def)
  ultimately show ?thesis using assms(1) by (simp add: tracked_def)
qed

context skip_map
begin

lemma tracked_add_step:
  assumes "add_step sm s s'" and "tracked sm sm_inv m0 quiet pl s"
  shows "\<exists>pl. tracked sm sm_inv m0 quiet pl s'"
  using assms
proof (induction rule: add_step.induct)
  case (add_call i s pid d)
  then show ?case using tracked_call by blast
next
  case (add_get_or_insert i s pid d r fresh t a)
  then show ?case using tracked_insert by blast
next
  case (add_cas_ok i s pid d a current cs v)
  then have "cs = (cells (reg s))(a := sat_add current d)" "current = cells (reg s) a"
    by (simp_all add: cas_ok_iff)
  with add_cas_ok show ?case
    using tracked_commit [OF add_cas_ok.prems add_cas_ok.hyps(1)] by auto
qed (rule exI, erule tracked_move; simp)+

lemma tracked_registry_step:
  assumes "registry_step sm s s'" and "tracked sm sm_inv m0 quiet pl s"
    and "quiet \<Longrightarrow> detaches_quietly s s'"
  shows "\<exists>pl. tracked sm sm_inv m0 quiet pl s'"
  using assms
proof (induction rule: registry_step.induct)
  case (step_add s s')
  then show ?case using tracked_add_step by blast
next
  case (remove_call i s pid)
  have "tracked sm sm_inv m0 quiet pl (s\<lparr>threads := (threads s)[i := RemoveTable pid]\<rparr>)"
    by (rule tracked_move [OF remove_call.prems(1) remove_call.hyps(1)]) (simp_all add: remove_call.hyps(2))
  then show ?case by blast
next
  case (remove_table i s pid t entry)
  show ?case
  proof (cases entry)
    case None
    have "tracked sm sm_inv m0 quiet pl (s\<lparr>reg := (reg s)\<lparr>table := t\<rparr>\<rparr>)"
      using tracked_remove_missing [OF remove_table.prems(1)] remove_table.hyps(3) None by simp
    then have "tracked sm sm_inv m0 quiet pl (s\<lparr>reg := (reg s)\<lparr>table := t\<rparr>, threads := (threads s)[i := RemoveLoad pid None]\<rparr>)"
      using tracked_move [of sm sm_inv m0 quiet pl "s\<lparr>reg := (reg s)\<lparr>table := t\<rparr>\<rparr>" i "RemoveLoad pid None"]
        remove_table.hyps(1,2) by simp
    with None show ?thesis by blast
  next
    case (Some a)
    have "quiet \<Longrightarrow> \<forall>j < length (threads s). \<forall>b. in_hand (threads s ! j) \<noteq> Some (pid, b)"
      using remove_table.prems(2) remove_table.hyps(1,2) by (auto simp: detaches_quietly_def)
    then show ?thesis
      using tracked_detach [OF remove_table.prems(1) remove_table.hyps(1,2)] remove_table.hyps(3) Some by blast
  qed
next
  case (remove_load i s pid entry)
  show ?case
  proof (cases entry)
    case None
    have "tracked sm sm_inv m0 quiet pl (s\<lparr>threads := (threads s)[i := Idle]\<rparr>)"
      by (rule tracked_move [OF remove_load.prems(1) remove_load.hyps(1)]) (simp_all add: remove_load.hyps(2) None)
    then show ?thesis
      by (intro exI [of _ pl]) (simp add: tracked_def balanced_def None)
  next
    case (Some a)
    then show ?thesis
      using tracked_report [OF remove_load.prems(1) remove_load.hyps(1)] remove_load.hyps(2) by auto
  qed
qed

lemma tracked_registry_steps:
  "registry_steps sm s s' \<Longrightarrow> tracked sm sm_inv m0 False pl s \<Longrightarrow> \<exists>pl. tracked sm sm_inv m0 False pl s'"
proof (induction rule: rtranclp_induct)
  case (step s' s'')
  then show ?case using tracked_registry_step by blast
qed blast

lemma tracked_quiet_steps:
  "quiet_steps sm s s' \<Longrightarrow> tracked sm sm_inv m0 True pl s \<Longrightarrow> \<exists>pl. tracked sm sm_inv m0 True pl s'"
proof (induction rule: rtranclp_induct)
  case (step s' s'')
  then show ?case using tracked_registry_step unfolding quiet_step_def by blast
qed blast

text \<open>At the start the cells of the table are the ones in use.\<close>

lemma tracked_init:
  assumes "registry_inv sm sm_inv r"
  shows "\<exists>pl. tracked sm sm_inv (totals sm r) quiet pl (init_system r n)"
proof -
  note inv = registry_invD [OF assms]
  let ?user = "\<lambda>a p. sm_get sm (table r) p = Some a"
  define pl :: places where "pl = (\<lambda>a. if Ex (?user a) then Some (The (?user a), Live) else None)"
  have the: "The (?user a) = p" if "?user a p" for a p
    using that inv(3) by blast
  have get: "?user a p \<longleftrightarrow> pl a = Some (p, Live)" for p a
    using the by (auto simp: pl_def)
  have live: "\<exists>p. x = (p, Live)" if "pl a = Some x" for a x using that by (auto simp: pl_def split: if_splits)
  have "owned_uj pl r pid = unat (totals sm r pid)" for pid
  proof -
    have "owned_uj pl r pid = (\<Sum>a<next_cell r. if sm_get sm (table r) pid = Some a then unat (cells r a) else 0)"
      unfolding owned_uj_def using live get by (intro sum.cong) fastforce+
    also have "\<dots> = unat (totals sm r pid)"
      using inv(2) [of pid] by (cases "sm_get sm (table r) pid") (simp_all add: totals_def registry_get_def)
    finally show ?thesis .
  qed
  moreover have "gone_of pid (pl a) = 0" for pid a using live [of a] by (cases "pl a") auto
  moreover have "sum_list (map in_flight (replicate n Idle)) = {#}" by (induction n) simp_all
  ultimately have "balanced (totals sm r) pl (init_system r n)"
    by (simp add: balanced_def init_system_def gone_uj_def)
  moreover have "places_ok sm sm_inv pl r (replicate n Idle)"
    unfolding places_ok_def
  proof (intro conjI allI impI)
    show "a < next_cell r" if "pl a \<noteq> None" for a
      using that live [of a] get inv(2) by blast
    show "i < length (replicate n Idle) \<and> detaching (replicate n Idle ! i) = Some (pid, a)
        \<longleftrightarrow> pl a = Some (pid, Detached i)" for i pid a
      using live [of a] by auto
    show "v \<le> cells r a" if "pl a = Some (pid, Gone v)" for a pid v
      using live [OF that] by simp
  qed (use assms get in simp_all)
  moreover have "undisturbed pl r (replicate n Idle)" using live by (fastforce simp: undisturbed_def)
  ultimately show ?thesis by (auto simp: tracked_def init_system_def)
qed

end

text \<open>What the table and the removals report of a process is bounded by what its cells hold.\<close>

lemma tracked_reported:
  assumes "places_ok sm sm_inv pl r ts"
  shows "uj_of (registry_get sm r pid) + gone_uj pl r pid \<le> owned_uj pl r pid"
    and "undisturbed pl r ts \<Longrightarrow> \<forall>p \<in> set ts. detaching p = None \<Longrightarrow>
      uj_of (registry_get sm r pid) + gone_uj pl r pid = owned_uj pl r pid"
proof -
  let ?live = "\<lambda>a. if sm_get sm (table r) pid = Some a then unat (cells r a) else 0"
    and ?own = "\<lambda>a. if map_option fst (pl a) = Some pid then unat (cells r a) else 0"
  have live: "uj_of (registry_get sm r pid) = (\<Sum>a<next_cell r. ?live a)"
    using registry_invD(2) [OF places_okD(1) [OF assms], of pid]
    by (cases "sm_get sm (table r) pid") (simp_all add: registry_get_def)
  have "?live a + gone_of pid (pl a) \<le> ?own a" for a
  proof (cases "pl a")
    case (Some x)
    then show ?thesis
      using places_okD(3) [OF assms, of pid a] places_okD(6) [OF assms, of a "fst x"]
      by (cases x; cases "snd x") (auto simp: word_le_nat_alt)
  qed (use places_okD(3) [OF assms, of pid a] in simp)
  then show "uj_of (registry_get sm r pid) + gone_uj pl r pid \<le> owned_uj pl r pid"
    unfolding live gone_uj_def owned_uj_def sum.distrib [symmetric] by (intro sum_mono)
  assume quiet: "undisturbed pl r ts" and idle: "\<forall>p \<in> set ts. detaching p = None"
  have "?live a + gone_of pid (pl a) = ?own a" for a
  proof (cases "pl a")
    case (Some x)
    then have "snd x \<noteq> Detached i" for i
      using places_okD(4) [OF assms, of i "fst x" a] idle by (cases x) auto
    then show ?thesis
      using Some places_okD(3) [OF assms, of pid a] quiet
      by (cases x; cases "snd x") (auto simp: undisturbed_def)
  qed (use places_okD(3) [OF assms, of pid a] in simp)
  then show "uj_of (registry_get sm r pid) + gone_uj pl r pid = owned_uj pl r pid"
    unfolding live gone_uj_def owned_uj_def sum.distrib [symmetric] by (intro sum.cong) simp_all
qed

lemma sum_for_deltas_le: "mset xs = mset ys + m \<Longrightarrow> sum_for pid ys \<le> sum_for pid xs"
proof -
  assume "mset xs = mset ys + m"
  moreover obtain zs where "m = mset zs" by (metis ex_mset)
  ultimately have "mset xs = mset (ys @ zs)" by simp
  then have "sum_for pid xs = sum_for pid (ys @ zs)" by (rule sum_for_mset_cong)
  then show ?thesis by simp
qed

section \<open>A run with a quiet removal\<close>

lemma add_step_quiet: "add_step sm s s' \<Longrightarrow> quiet_step sm s s'"
proof -
  assume step: "add_step sm s s'"
  then have "detaches_quietly s s'"
    by cases (auto simp: detaches_quietly_def nth_update split: if_splits)
  with step show ?thesis by (simp add: quiet_step_def step_add)
qed

lemma quiet_run:
  "quiet_steps btree_skip_map empty_system (run_state [] 5 [Idle, Idle] [(7, 5, 5)] [(7, Some 5)])"
proof -
  let ?s = "\<lambda>t p rm. run_state t 5 [Idle, p] [(7, 5, 5)] rm"
  have "quiet_steps btree_skip_map empty_system (?s [(7, 0)] Idle [])"
    using mono_rtranclp [of "add_step btree_skip_map" "quiet_step btree_skip_map"] add_step_quiet run_to_end by blast
  also have "quiet_step btree_skip_map (?s [(7, 0)] Idle []) (?s [(7, 0)] (RemoveTable 7) [])"
    using remove_call [of 1 "?s [(7, 0)] Idle []" btree_skip_map 7]
    by (simp add: quiet_step_def detaches_quietly_def run_state_def All_less_Suc)
  also have "quiet_step btree_skip_map (?s [(7, 0)] (RemoveTable 7) []) (?s [] (RemoveLoad 7 (Some 0)) [])"
    using remove_table [of 1 "?s [(7, 0)] (RemoveTable 7) []" 7 btree_skip_map "[]" "Some 0"]
    by (simp add: quiet_step_def detaches_quietly_def run_state_def bt_remove_def bt_get_def All_less_Suc)
  also have "quiet_step btree_skip_map (?s [] (RemoveLoad 7 (Some 0)) []) (?s [] Idle [(7, Some 5)])"
    using remove_load [of 1 "?s [] (RemoveLoad 7 (Some 0)) []" 7 "Some 0" btree_skip_map]
    by (simp add: quiet_step_def detaches_quietly_def run_state_def All_less_Suc)
  finally show ?thesis .
qed

section \<open>Properties\<close>

text \<open>
  C3.  Removals never inflate.  In every state reached by threads that accumulate and remove
  under any schedule, what the registry still holds for a process and what all removals of
  it reported are together at most its initial total plus the deltas called for: no delta
  is ever counted twice, even by racing removals of the same process.
\<close>

theorem concurrent_removals_never_inflate:
  assumes "skip_map sm sm_inv" and "registry_inv sm sm_inv r" and "registry_steps sm (init_system r n) s"
  shows "uj_of (registry_get sm (reg s) pid) + removed_uj pid (removed s)
    \<le> uj_of (registry_get sm r pid) + sum_for pid (called s)"
proof -
  obtain pl where T: "tracked sm sm_inv (totals sm r) False pl s"
    using skip_map.tracked_registry_steps [OF assms(1,3)] skip_map.tracked_init [OF assms(1,2)] by blast
  then have P: "places_ok sm sm_inv pl (reg s) (threads s)" and B: "balanced (totals sm r) pl s"
    by (simp_all add: tracked_def)
  show ?thesis
    using tracked_reported(1) [OF P, of pid] balancedD(1,2) [OF B, of pid] sum_for_deltas_le [OF balancedD(4) [OF B], of pid]
    by (simp add: unat_totals)
qed

theorem concurrent_removals_never_inflate_witness:
  "uj_of (registry_get btree_skip_map (reg (run_state [] 5 [Idle, Idle] [(7, 5, 5)] [(7, Some 5)])) 7)
     + removed_uj 7 [(7, Some 5)] \<le> 5"
proof -
  have "registry_steps btree_skip_map empty_system (run_state [] 5 [Idle, Idle] [(7, 5, 5)] [(7, Some 5)])"
    using mono_rtranclp [of "quiet_step btree_skip_map" "registry_step btree_skip_map"] quiet_run
    unfolding quiet_step_def by blast
  from concurrent_removals_never_inflate [OF btree.skip_map_axioms registry_inv_empty this, of 7]
  show ?thesis by (simp add: run_state_def registry_get_def registry_new_def)
qed

text \<open>
  C14.  Quiet removals lose nothing.  If every removal takes its entry out of the table while
  no accumulation on that process is between its lookup and its compare-and-swap, then once
  all threads have returned every delta is accounted for exactly once: the total still in
  the registry plus what the removals reported is the initial total plus all deltas.
\<close>

theorem quiet_removals_lose_nothing:
  assumes "skip_map sm sm_inv" and "registry_inv sm sm_inv r" and "quiet_steps sm (init_system r n) s"
    and "\<forall>p \<in> set (threads s). p = Idle"
    and "uj_of (registry_get sm r pid) + sum_for pid (called s) \<le> u64_max"
  shows "uj_of (registry_get sm (reg s) pid) + removed_uj pid (removed s)
    = uj_of (registry_get sm r pid) + sum_for pid (called s)"
proof -
  obtain pl where T: "tracked sm sm_inv (totals sm r) True pl s"
    using skip_map.tracked_quiet_steps [OF assms(1,3)] skip_map.tracked_init [OF assms(1,2)] by blast
  then have P: "places_ok sm sm_inv pl (reg s) (threads s)" and B: "balanced (totals sm r) pl s"
    and U: "undisturbed pl (reg s) (threads s)"
    by (simp_all add: tracked_def)
  have "mset (called s) = mset (deltas (committed s))"
    using balancedD(4) [OF B] in_flight_idle [OF assms(4)] by simp
  then have "sum_for pid (called s) = sum_for pid (deltas (committed s))" by (rule sum_for_mset_cong)
  moreover have "\<forall>p \<in> set (threads s). detaching p = None" using assms(4) by auto
  ultimately show ?thesis
    using tracked_reported(2) [OF P U, of pid] balancedD(1,3) [OF B, of pid] assms(5)
    by (simp add: unat_totals)
qed

theorem quiet_removals_lose_nothing_witness:
  "uj_of (registry_get btree_skip_map (reg (run_state [] 5 [Idle, Idle] [(7, 5, 5)] [(7, Some 5)])) 7)
     + removed_uj 7 [(7, Some 5)] = 5"
  using quiet_removals_lose_nothing [OF btree.skip_map_axioms registry_inv_empty quiet_run, of 7]
  by (simp add: run_state_def registry_get_def registry_new_def)

end
