(* ===== verification/Attribution.thy ===== *)
theory Attribution
  imports Prelude
begin

text \<open>
  Energy arithmetic, \<open>src/core/attribution.rs\<close>: the burst-above-idle power, the energy
  of a window, the deterministic attribution model, the RAPL fallback and the NVML
  closed form, all on 64-bit words with the saturation the source writes.  The lemmas
  read every function as exact arithmetic on natural numbers, say precisely when the
  64-bit computation is exact, relate the four models to each other and show that no
  split of a busy window hands out more energy than was burned.

  The conversion of a micro-joule difference over a time gap into a power, which the
  Linux and the Apple provider both compute, is here too (\<open>power_over_gap_uw\<close>).
\<close>

section \<open>The functions\<close>

definition NANOSECONDS_PER_SECOND :: u64 where
  "NANOSECONDS_PER_SECOND = 1000000000"

definition baseline_burst_power_uw :: "u64 \<Rightarrow> u64 \<Rightarrow> u64" where
  "baseline_burst_power_uw active_power_uw idle_power_uw = sat_sub active_power_uw idle_power_uw"

definition window_energy_uj :: "u64 \<Rightarrow> u64 \<Rightarrow> u64" where
  "window_energy_uj power_uw window_ns =
     (let whole_seconds = window_ns div NANOSECONDS_PER_SECOND;
          remainder_ns = window_ns mod NANOSECONDS_PER_SECOND
      in sat_add (sat_mul power_uw whole_seconds)
                 (sat_mul power_uw remainder_ns div NANOSECONDS_PER_SECOND))"

definition burst_energy_uj :: "u64 \<Rightarrow> u64 \<Rightarrow> u64 \<Rightarrow> u64" where
  "burst_energy_uj active_power_uw idle_power_uw window_ns =
     window_energy_uj (baseline_burst_power_uw active_power_uw idle_power_uw) window_ns"

definition deterministic_attribution_uj :: "u64 \<Rightarrow> u64 \<Rightarrow> u64 \<Rightarrow> u64 \<Rightarrow> u64" where
  "deterministic_attribution_uj total_power_uw idle_power_uw process_on_accelerator_ns total_busy_ns =
     (if total_busy_ns = 0 then 0
      else let burst_power_uw = sat_sub total_power_uw idle_power_uw;
               proc_ns = min process_on_accelerator_ns total_busy_ns;
               numerator = u128_from burst_power_uw * u128_from proc_ns;
               micro_joules = numerator div u128_from NANOSECONDS_PER_SECOND
           in unwrap_or U64_MAX (u64_try_from micro_joules))"

definition rapl_fallback_uj :: "u64 \<Rightarrow> u32 \<Rightarrow> u64" where
  "rapl_fallback_uj rapl_uj_delta cpu_share_micros =
     (let share = u64_from (min cpu_share_micros 1000000);
          scaled = u128_from rapl_uj_delta * u128_from share
      in unwrap_or U64_MAX (u64_try_from (scaled div 1000000)))"

definition nvml_window_energy_uj :: "u64 \<Rightarrow> u64 \<Rightarrow> u64" where
  "nvml_window_energy_uj power_mw dt_ms =
     (let energy = u128_from power_mw * u128_from dt_ms
      in unwrap_or U64_MAX (u64_try_from energy))"

definition power_over_gap_uw :: "u64 \<Rightarrow> u64 \<Rightarrow> u64" where
  "power_over_gap_uw delta_uj dt_ns =
     (if dt_ns = 0 then 0
      else unwrap_or U64_MAX (u64_try_from (u128_from delta_uj * 1000000000 div u128_from dt_ns)))"

section \<open>Exact readings\<close>

lemma unat_NANOSECONDS_PER_SECOND [u64_nat, simp]: "unat NANOSECONDS_PER_SECOND = 1000000000"
  by (simp add: NANOSECONDS_PER_SECOND_def)

lemma unat_min_word [u64_nat]: "unat (min a b) = min (unat a) (unat b)" for a b :: "'a::len word"
  by (simp add: min_def word_le_nat_alt)

lemma unat_baseline_burst_power_uw [u64_nat]:
  "unat (baseline_burst_power_uw a i) = unat a - unat i"
  by (simp add: baseline_burst_power_uw_def u64_nat)

lemma unat_window_energy_uj:
  "unat (window_energy_uj p w) =
     min (unat p * (unat w div 1000000000)
          + min (unat p * (unat w mod 1000000000)) u64_max div 1000000000) u64_max"
  by (simp add: window_energy_uj_def Let_def u64_nat unat_div unat_mod)

lemma mult_split_div:
  "p * (w div c) + p * (w mod c) div c = p * w div c" for p w c :: nat
proof (cases "c = 0")
  case False
  have "p * w = p * (w mod c) + c * (p * (w div c))"
    by (metis add_mult_distrib2 mult.left_commute mod_mult_div_eq)
  then have "p * w div c = (p * (w mod c) + c * (p * (w div c))) div c" by simp
  also have "\<dots> = p * (w div c) + p * (w mod c) div c"
    using False by (simp add: div_mult_self1)
  finally show ?thesis by simp
qed simp

lemma window_energy_uj_exact:
  assumes "unat p * (unat w mod 1000000000) \<le> u64_max"
  shows "unat (window_energy_uj p w) = min (unat p * unat w div 1000000000) u64_max"
  using assms by (simp add: unat_window_energy_uj mult_split_div)

lemma window_energy_uj_le: "unat (window_energy_uj p w) \<le> unat p * unat w div 1000000000"
proof -
  have "min (unat p * (unat w mod 1000000000)) u64_max div 1000000000
          \<le> unat p * (unat w mod 1000000000) div 1000000000"
    by (rule div_le_mono) simp
  then have "unat (window_energy_uj p w)
      \<le> unat p * (unat w div 1000000000) + unat p * (unat w mod 1000000000) div 1000000000"
    by (simp add: unat_window_energy_uj min.coboundedI1)
  then show ?thesis by (simp add: mult_split_div)
qed

lemma unat_deterministic_attribution_uj:
  "unat (deterministic_attribution_uj tp ip pn bn) =
     (if unat bn = 0 then 0
      else min ((unat tp - unat ip) * min (unat pn) (unat bn) div 1000000000) u64_max)"
  by (simp add: deterministic_attribution_uj_def Let_def u64_nat unat_div unat_eq_zero)

lemma unat_nvml_window_energy_uj [u64_nat]:
  "unat (nvml_window_energy_uj p t) = min (unat p * unat t) u64_max"
  by (simp add: nvml_window_energy_uj_def Let_def u64_nat)

lemma unat_rapl_fallback_uj:
  "unat (rapl_fallback_uj d s) = unat d * min (unat s) 1000000 div 1000000"
proof -
  have "unat d * min (unat s) 1000000 \<le> unat d * 1000000" by (rule mult_le_mono) simp_all
  then have "unat d * min (unat s) 1000000 div 1000000 \<le> unat d"
    by (metis div_le_mono nonzero_mult_div_cancel_right zero_neq_numeral)
  then have "unat d * min (unat s) 1000000 div 1000000 \<le> u64_max"
    using unat_u64_le order_trans by blast
  then show ?thesis
    by (simp add: rapl_fallback_uj_def Let_def u64_nat unat_div)
qed

lemma unat_power_over_gap_uw:
  "unat (power_over_gap_uw d t) =
     (if unat t = 0 then 0 else min (unat d * 1000000000 div unat t) u64_max)"
proof -
  have eq: "(1000000000 :: u128) = u128_from 1000000000"
    by (simp add: u128_from_def)
  have "unat (u128_from d * 1000000000) = unat d * 1000000000"
    unfolding eq unat_u128_mult by simp
  then show ?thesis
    by (simp add: power_over_gap_uw_def u64_nat unat_div unat_eq_zero)
qed

lemma power_over_gap_uw_zero [simp]: "power_over_gap_uw d 0 = 0" "power_over_gap_uw 0 t = 0"
  by (rule word_eqI_unat, simp add: unat_power_over_gap_uw)+

section \<open>Properties\<close>

text \<open>
  C38.  The energy of a window is computed exactly (rounded down to a micro-joule,
  saturating at the largest 64-bit value) if and only if the sub-second part of the
  product fits 64 bits up to rounding, or the whole-second part already saturates.
  The intermediate \<open>saturating_mul\<close> by the sub-second remainder is the only source of
  error, and it always errs downwards.
\<close>

theorem window_energy_uj_exact_iff:
  "unat (window_energy_uj p w) \<le> unat p * unat w div 1000000000
   \<and> (unat (window_energy_uj p w) = min (unat p * unat w div 1000000000) u64_max \<longleftrightarrow>
       unat p * (unat w mod 1000000000) div 1000000000 \<le> 18446744073
       \<or> u64_max \<le> unat p * (unat w div 1000000000) + 18446744073)"
proof -
  let ?q = "unat p * (unat w div 1000000000)" and ?r = "unat p * (unat w mod 1000000000)"
  have exact: "unat p * unat w div 1000000000 = ?q + ?r div 1000000000"
    by (rule mult_split_div [symmetric])
  have sub: "min ?r u64_max div 1000000000 = min (?r div 1000000000) 18446744073"
    by (cases "?r \<le> u64_max") (auto simp: min_def dest: div_le_mono [of _ _ 1000000000])
  show ?thesis
    using window_energy_uj_le [of p w]
    unfolding unat_window_energy_uj exact sub by linarith
qed

text \<open>
  The exactness condition is violated by inputs the 64-bit result could represent:
  a 20 kW package over one nanosecond less than a second is billed 18446744073
  micro-joules, 1.55 kJ less than the 19999999980 it burned.
\<close>

theorem window_energy_uj_undercounts_above_18kW:
  "window_energy_uj 20000000000 999999999 = 18446744073
   \<and> unat (20000000000 :: u64) * unat (999999999 :: u64) div 1000000000 = 19999999980"
  by (simp add: window_energy_uj_def NANOSECONDS_PER_SECOND_def sat_add_def sat_mul_def Let_def)

text \<open>
  The deterministic model computes burst power times on-accelerator time exactly:
  zero for an idle accelerator, the process time clamped to the busy time, the product
  taken in 128 bits without overflow and only the final result saturating.
\<close>

theorem deterministic_attribution_uj_value:
  "unat (deterministic_attribution_uj tp ip pn bn) =
     (if bn = 0 then 0
      else min ((unat tp - unat ip) * min (unat pn) (unat bn) div 1000000000) u64_max)"
  by (simp add: unat_deterministic_attribution_uj unat_eq_zero)

text \<open>
  Conservation: when the on-accelerator times of the processes add up to at most the
  busy time, the energies attributed to them add up to at most the burst energy of the
  busy window.
\<close>

theorem deterministic_attribution_conserves:
  assumes "sum_list (map unat procs) \<le> unat busy"
  shows "sum_list (map (\<lambda>pn. unat (deterministic_attribution_uj tp ip pn busy)) procs)
           \<le> (unat tp - unat ip) * unat busy div 1000000000"
proof -
  let ?b = "unat tp - unat ip"
  have "sum_list (map (\<lambda>pn. unat (deterministic_attribution_uj tp ip pn busy)) procs)
          \<le> sum_list (map (\<lambda>pn. ?b * unat pn div 1000000000) procs)"
    by (rule sum_list_mono)
       (auto simp: unat_deterministic_attribution_uj min.coboundedI1 div_le_mono)
  also have "\<dots> \<le> sum_list (map (\<lambda>pn. ?b * unat pn) procs) div 1000000000"
    by (rule sum_list_div_le)
  also have "sum_list (map (\<lambda>pn. ?b * unat pn) procs) = ?b * sum_list (map unat procs)"
    by (simp add: sum_list_const_mult)
  also have "?b * sum_list (map unat procs) div 1000000000 \<le> ?b * unat busy div 1000000000"
    using assms by (intro div_le_mono mult_le_mono) simp_all
  finally show ?thesis .
qed

theorem deterministic_attribution_conserves_witness:
  "sum_list (map unat [500000000, 1500000000 :: u64]) \<le> unat (2000000000 :: u64)
   \<and> sum_list (map (\<lambda>pn. unat (deterministic_attribution_uj 8500000 3000000 pn 2000000000))
         [500000000, 1500000000]) \<le> 11000000"
  using deterministic_attribution_conserves
          [of "[500000000, 1500000000]" 2000000000 8500000 3000000]
  by simp

text \<open>
  Where the 64-bit window formula is exact and nothing saturates, it agrees with the
  128-bit deterministic model for a process that held the accelerator for a part of the
  busy time.
\<close>

theorem deterministic_attribution_eq_window_energy:
  assumes "busy \<noteq> 0" and "pn \<le> busy"
    and "(unat tp - unat ip) * (unat pn mod 1000000000) \<le> u64_max"
  shows "deterministic_attribution_uj tp ip pn busy = burst_energy_uj tp ip pn"
proof (rule word_eqI_unat)
  have "unat (burst_energy_uj tp ip pn) =
      min (unat (baseline_burst_power_uw tp ip) * unat pn div 1000000000) u64_max"
    unfolding burst_energy_uj_def
    by (rule window_energy_uj_exact) (use assms(3) in \<open>simp add: u64_nat\<close>)
  moreover have "min (unat pn) (unat busy) = unat pn"
    using assms(2) by (simp add: word_le_nat_alt)
  ultimately show "unat (deterministic_attribution_uj tp ip pn busy) = unat (burst_energy_uj tp ip pn)"
    using assms(1) by (simp add: unat_deterministic_attribution_uj u64_nat unat_eq_zero)
qed

theorem deterministic_attribution_eq_window_energy_witness:
  "deterministic_attribution_uj 8500000 3000000 1000000000 2000000000
     = burst_energy_uj 8500000 3000000 1000000000"
  by (rule deterministic_attribution_eq_window_energy) simp_all

text \<open>
  The RAPL fallback scales a counter difference by a per-million share without
  overflow (its \<open>unwrap_or\<close> is never taken), clamps the share to one, and hands out at
  most the measured energy when the shares of the processes add up to at most one.
\<close>

theorem rapl_fallback_uj_conserves:
  assumes "sum_list (map unat shares) \<le> 1000000"
  shows "unat (rapl_fallback_uj d s) = unat d * min (unat s) 1000000 div 1000000
    \<and> rapl_fallback_uj d s \<le> d
    \<and> sum_list (map (\<lambda>s. unat (rapl_fallback_uj d s)) shares) \<le> unat d"
proof (intro conjI)
  show "unat (rapl_fallback_uj d s) = unat d * min (unat s) 1000000 div 1000000"
    by (rule unat_rapl_fallback_uj)
  have "unat d * min (unat s) 1000000 div 1000000 \<le> unat d * 1000000 div 1000000"
    by (intro div_le_mono mult_le_mono) simp_all
  then show "rapl_fallback_uj d s \<le> d"
    by (simp add: word_le_nat_alt unat_rapl_fallback_uj)
  have "sum_list (map (\<lambda>s. unat (rapl_fallback_uj d s)) shares)
          \<le> sum_list (map (\<lambda>s. unat d * unat s div 1000000) shares)"
    by (rule sum_list_mono) (simp add: unat_rapl_fallback_uj div_le_mono)
  also have "\<dots> \<le> sum_list (map (\<lambda>s. unat d * unat s) shares) div 1000000"
    by (rule sum_list_div_le)
  also have "\<dots> \<le> unat d * 1000000 div 1000000"
    using assms by (intro div_le_mono) (simp add: sum_list_const_mult)
  finally show "sum_list (map (\<lambda>s. unat (rapl_fallback_uj d s)) shares) \<le> unat d"
    by simp
qed

theorem rapl_fallback_uj_conserves_witness:
  "sum_list (map unat [250000, 750000 :: u32]) \<le> 1000000
   \<and> rapl_fallback_uj 10000 250000 \<le> 10000
   \<and> sum_list (map (\<lambda>s. unat (rapl_fallback_uj 10000 s)) [250000, 750000]) \<le> unat (10000 :: u64)"
  using rapl_fallback_uj_conserves [of "[250000, 750000]" 10000 250000] by simp

text \<open>
  The NVML closed form agrees with the generic window formula after unit conversion:
  milliwatts times milliseconds is the energy of a thousand times the power in microwatts
  over a million times the window in nanoseconds, whenever neither conversion overflows
  and the window formula is exact.
\<close>

theorem nvml_window_energy_eq_window_energy:
  assumes "unat mw * 1000 \<le> u64_max" and "unat ms * 1000000 \<le> u64_max"
    and "unat mw * 1000 * (unat ms * 1000000 mod 1000000000) \<le> u64_max"
  shows "nvml_window_energy_uj mw ms = window_energy_uj (mw * 1000) (ms * 1000000)"
proof (rule word_eqI_unat)
  have p: "unat (mw * 1000) = unat mw * 1000"
    using assms(1) by (subst unat_mult_lem [THEN iffD1]) simp_all
  have w: "unat (ms * 1000000) = unat ms * 1000000"
    using assms(2) by (subst unat_mult_lem [THEN iffD1]) simp_all
  have "unat (window_energy_uj (mw * 1000) (ms * 1000000))
          = min (unat (mw * 1000) * unat (ms * 1000000) div 1000000000) u64_max"
    by (rule window_energy_uj_exact) (use assms(3) in \<open>simp add: p w\<close>)
  also have "unat (mw * 1000) * unat (ms * 1000000) = unat mw * unat ms * 1000000000"
    by (simp add: p w)
  finally show "unat (nvml_window_energy_uj mw ms) = unat (window_energy_uj (mw * 1000) (ms * 1000000))"
    by (simp add: u64_nat)
qed

theorem nvml_window_energy_eq_window_energy_witness:
  "nvml_window_energy_uj 150000 100 = window_energy_uj (150000 * 1000) (100 * 1000000)"
  by (rule nvml_window_energy_eq_window_energy) simp_all

text \<open>
  Converting an energy difference to a power over a gap and integrating that power over
  the same gap never yields more than the difference, and loses at most one micro-joule
  per started second of the gap as long as the conversion does not saturate.
\<close>

lemma window_energy_power_over_gap_le:
  "unat (window_energy_uj (power_over_gap_uw d t) t) \<le> unat d"
proof -
  have "unat (window_energy_uj (power_over_gap_uw d t) t)
          \<le> unat (power_over_gap_uw d t) * unat t div 1000000000"
    by (rule window_energy_uj_le)
  also have "unat (power_over_gap_uw d t) * unat t \<le> unat d * 1000000000 div unat t * unat t"
    by (simp add: unat_power_over_gap_uw)
  also have "\<dots> \<le> unat d * 1000000000" by (rule div_times_less_eq_dividend)
  finally show ?thesis by (simp add: div_le_mono)
qed

lemma window_energy_power_over_gap_ge:
  assumes "t \<noteq> 0" and "unat d * 1000000000 div unat t \<le> u64_max"
    and "unat (power_over_gap_uw d t) * (unat t mod 1000000000) \<le> u64_max"
  shows "unat d \<le> unat (window_energy_uj (power_over_gap_uw d t) t) + unat t div 1000000000 + 1"
proof -
  let ?p = "unat d * 1000000000 div unat t"
  have p: "unat (power_over_gap_uw d t) = ?p"
    using assms(1,2) by (simp add: unat_power_over_gap_uw unat_eq_zero)
  have "?p * unat t div 1000000000 \<le> unat d * 1000000000 div 1000000000"
    by (intro div_le_mono) (rule div_times_less_eq_dividend)
  then have "?p * unat t div 1000000000 \<le> unat d" by simp
  then have "?p * unat t div 1000000000 \<le> u64_max"
    using unat_u64_le by (rule order_trans)
  then have e: "unat (window_energy_uj (power_over_gap_uw d t) t) = ?p * unat t div 1000000000"
    using window_energy_uj_exact [OF assms(3)] p by simp
  have "unat t > 0" using assms(1) by (simp add: unat_gt_0)
  then have "unat d * 1000000000 < ?p * unat t + unat t"
    using dividend_less_times_div [of "unat t" "unat d * 1000000000"] by (simp add: mult.commute)
  then have "unat d * 1000000000 \<le> ?p * unat t + unat t" by simp
  then have "unat d * 1000000000 div 1000000000 \<le> (?p * unat t + unat t) div 1000000000"
    by (rule div_le_mono)
  also have "\<dots> \<le> ?p * unat t div 1000000000 + unat t div 1000000000 + 1"
    by linarith
  finally show ?thesis by (simp add: e)
qed

end
