(* ===== verification/Provider.thy ===== *)
theory Provider
  imports Attribution Registry
begin

text \<open>
  The provider interface and the differential sampling loop, \<open>src/core/provider.rs\<close>:
  power snapshots, per-process attributions, the trait's methods as a record of
  functions (a provider's state \<open>'p\<close> is updated explicitly, and everything a sample
  reads from the outside is an argument of type \<open>'e\<close>), one tick of the loop, and runs of
  it.  A tick also returns the heartbeat line it logs.

  The locale \<open>pending_provider\<close> is the contract of a provider that buffers attributions
  and drains them into the registry; the three operating-system providers are
  interpretations of it.
\<close>

section \<open>Snapshots and attributions\<close>

record PowerSnapshot =
  snap_observed_at_ns :: u64
  snap_idle_power_uw :: u64
  snap_active_power_uw :: u64
  snap_cpu_power_uw :: u64
  snap_gpu_power_uw :: u64
  snap_accelerator_power_uw :: u64
  snap_hardware_signature :: string

record PidEnergyAttribution =
  attr_pid :: u32
  attr_window_start_ns :: u64
  attr_window_end_ns :: u64
  attr_burst_power_uw :: u64
  attr_attributed_energy_uj :: u64
  attr_hardware_signature :: string

definition SAMPLING_LOOP_INTERVAL_MS :: u64 where
  "SAMPLING_LOOP_INTERVAL_MS = 100"

definition baseline_burst :: "u32 \<Rightarrow> u64 \<Rightarrow> u64 \<Rightarrow> PowerSnapshot \<Rightarrow> PidEnergyAttribution" where
  "baseline_burst pid window_start_ns window_end_ns snap =
     (let window_ns = sat_sub window_end_ns window_start_ns in
      \<lparr>attr_pid = pid,
       attr_window_start_ns = window_start_ns,
       attr_window_end_ns = window_end_ns,
       attr_burst_power_uw = baseline_burst_power_uw (snap_active_power_uw snap) (snap_idle_power_uw snap),
       attr_attributed_energy_uj =
         burst_energy_uj (snap_active_power_uw snap) (snap_idle_power_uw snap) window_ns,
       attr_hardware_signature = snap_hardware_signature snap\<rparr>)"

section \<open>The trait\<close>

record ('p, 'e, 't) provider_ops =
  trait_sample_power_state :: "'e \<Rightarrow> 'p \<Rightarrow> 'p \<times> PowerSnapshot result"
  trait_attribute_joules_to_pid ::
    "'p \<Rightarrow> u32 \<Rightarrow> u64 \<Rightarrow> u64 \<Rightarrow> PowerSnapshot \<Rightarrow> 'p \<times> PidEnergyAttribution result"
  trait_sync_registry :: "'p \<Rightarrow> 't AmalgafyRegistry \<Rightarrow> 'p \<times> 't AmalgafyRegistry \<times> u64 result"
  trait_hardware_signature :: "'p \<Rightarrow> string"
  trait_active_pids :: "'p \<Rightarrow> u32 list"

text \<open>The default methods of the trait.\<close>

definition default_sync_registry ::
  "'p \<Rightarrow> 't AmalgafyRegistry \<Rightarrow> 'p \<times> 't AmalgafyRegistry \<times> u64 result" where
  "default_sync_registry p r = (p, r, Ok 0)"

definition default_active_pids :: "'p \<Rightarrow> u32 list" where
  "default_active_pids p = []"

section \<open>The sampling loop\<close>

text \<open>
  \<open>for pid in &pids\<close>: every process gets the share, and the first ones one micro-joule
  more until the remainder is used up.
\<close>

fun split_loop ::
  "'t skip_map_ops \<Rightarrow> u64 \<Rightarrow> u64 \<Rightarrow> u32 list \<Rightarrow> 't AmalgafyRegistry \<Rightarrow> 't AmalgafyRegistry" where
  "split_loop sm share remainder [] r = r"
| "split_loop sm share remainder (pid # pids) r =
     (case (if remainder > 0 then (remainder - 1, 1) else (remainder, 0)) of
        (remainder', extra) \<Rightarrow>
          split_loop sm share remainder' pids (fst (add_micro_joules sm r pid (share + extra))))"

definition fan_out ::
  "'t skip_map_ops \<Rightarrow> u32 list \<Rightarrow> u64 \<Rightarrow> 't AmalgafyRegistry \<Rightarrow> 't AmalgafyRegistry" where
  "fan_out sm pids delta_uj r =
     (if pids = [] then fst (add_micro_joules sm r 0 delta_uj)
      else let num_pids = of_nat (length pids);
               share = delta_uj div num_pids;
               remainder = delta_uj - sat_mul share num_pids
           in split_loop sm share remainder pids r)"

text \<open>The log line of a tick.\<close>

datatype heartbeat =
    SampleFailed string string
  | FirstSample string u64 u64
  | Heartbeat string u64 u64 u64 nat

record ('p, 't) sampling_state =
  sl_provider :: 'p
  sl_registry :: "'t AmalgafyRegistry"
  previous_snapshot :: "PowerSnapshot option"
  cumulative_delta_uj :: u64

definition sampling_start :: "'p \<Rightarrow> 't AmalgafyRegistry \<Rightarrow> ('p, 't) sampling_state" where
  "sampling_start p r =
     \<lparr>sl_provider = p, sl_registry = r, previous_snapshot = None, cumulative_delta_uj = 0\<rparr>"

definition sampling_tick ::
  "'t skip_map_ops \<Rightarrow> ('p, 'e, 't) provider_ops \<Rightarrow> 'e \<Rightarrow> ('p, 't) sampling_state
     \<Rightarrow> ('p, 't) sampling_state \<times> heartbeat" where
  "sampling_tick sm ops e s =
     (case trait_sample_power_state ops e (sl_provider s) of (p, res) \<Rightarrow>
      (case res of
        Inl err \<Rightarrow>
          (s\<lparr>sl_provider := p, previous_snapshot := None\<rparr>,
           SampleFailed (trait_hardware_signature ops p) err)
      | Inr snap \<Rightarrow>
          (case previous_snapshot s of
             Some prev \<Rightarrow>
               let dt_ns = sat_sub (snap_observed_at_ns snap) (snap_observed_at_ns prev);
                   burst_power_uw =
                     baseline_burst_power_uw (snap_active_power_uw snap) (snap_idle_power_uw snap);
                   delta_uj = window_energy_uj burst_power_uw dt_ns;
                   pids = trait_active_pids ops p;
                   cumulative = sat_add (cumulative_delta_uj s) delta_uj
               in (s\<lparr>sl_provider := p, sl_registry := fan_out sm pids delta_uj (sl_registry s),
                     previous_snapshot := Some snap, cumulative_delta_uj := cumulative\<rparr>,
                   Heartbeat (trait_hardware_signature ops p) dt_ns delta_uj cumulative (length pids))
           | None \<Rightarrow>
               (s\<lparr>sl_provider := p, previous_snapshot := Some snap\<rparr>,
                FirstSample (trait_hardware_signature ops p) (snap_active_power_uw snap)
                  (snap_idle_power_uw snap)))))"

text \<open>The loop runs until it is dropped; a run is the list of what its ticks read.\<close>

fun sampling_run ::
  "'t skip_map_ops \<Rightarrow> ('p, 'e, 't) provider_ops \<Rightarrow> 'e list \<Rightarrow> ('p, 't) sampling_state
     \<Rightarrow> ('p, 't) sampling_state \<times> heartbeat list" where
  "sampling_run sm ops [] s = (s, [])"
| "sampling_run sm ops (e # es) s =
     (case sampling_tick sm ops e s of (s1, h) \<Rightarrow>
      case sampling_run sm ops es s1 of (s2, hs) \<Rightarrow> (s2, h # hs))"

section \<open>Draining pending attributions\<close>

text \<open>
  \<open>for attribution in self.pending.drain(..)\<close>, the body of every provider's
  \<open>sync_registry\<close>: push each record into the registry and sum up with saturation.
\<close>

fun drain_pending ::
  "'t skip_map_ops \<Rightarrow> PidEnergyAttribution list \<Rightarrow> 't AmalgafyRegistry \<Rightarrow> u64
     \<Rightarrow> 't AmalgafyRegistry \<times> u64" where
  "drain_pending sm [] r total_uj = (r, total_uj)"
| "drain_pending sm (a # rest) r total_uj =
     drain_pending sm rest (fst (add_micro_joules sm r (attr_pid a) (attr_attributed_energy_uj a)))
       (sat_add total_uj (attr_attributed_energy_uj a))"

section \<open>The equal split\<close>

text \<open>What each process receives, and the sequence of accumulations the loop performs.\<close>

definition even_share :: "nat \<Rightarrow> nat \<Rightarrow> nat \<Rightarrow> nat" where
  "even_share total_uj n i = total_uj div n + (if i < total_uj mod n then 1 else 0)"

fun split_shares :: "u64 \<Rightarrow> u64 \<Rightarrow> u32 list \<Rightarrow> (u32 \<times> u64) list" where
  "split_shares share remainder [] = []"
| "split_shares share remainder (pid # pids) =
     (if remainder > 0 then (pid, share + 1) # split_shares share (remainder - 1) pids
      else (pid, share) # split_shares share remainder pids)"

lemma split_loop_eq_add_all:
  "split_loop sm share remainder pids r
     = add_all (add_micro_joules sm) r (split_shares share remainder pids)"
  by (induction pids arbitrary: remainder r) simp_all

lemma length_split_shares [simp]: "length (split_shares share remainder pids) = length pids"
  by (induction share remainder pids rule: split_shares.induct) simp_all

lemma map_fst_split_shares [simp]: "map fst (split_shares share remainder pids) = pids"
  by (induction share remainder pids rule: split_shares.induct) simp_all

lemma unat_plus_one: "unat share < u64_max \<Longrightarrow> unat (share + 1) = unat share + 1" for share :: u64
  by (subst unat_add_lem [THEN iffD1]) simp_all

lemma unat_minus_one_pos: "0 < remainder \<Longrightarrow> unat (remainder - 1) = unat remainder - 1" for remainder :: u64
  by (simp add: unat_minus_one word_neq_0_conv)

lemma nth_split_shares:
  "i < length pids \<Longrightarrow> (0 < unat remainder \<Longrightarrow> unat share < u64_max) \<Longrightarrow>
   unat (snd (split_shares share remainder pids ! i)) = unat share + (if i < unat remainder then 1 else 0)"
proof (induction share remainder pids arbitrary: i rule: split_shares.induct)
  case (2 share remainder pid pids)
  show ?case
  proof (cases "remainder > 0")
    case True
    then have pos: "0 < unat remainder" and m1: "unat (remainder - 1) = unat remainder - 1"
      by (simp_all add: unat_gt_0 word_neq_0_conv unat_minus_one_pos)
    with 2 True show ?thesis
      by (cases i) (auto simp: unat_plus_one)
  next
    case False
    then have "remainder = 0" using word_neq_0_conv by blast
    with 2 show ?thesis by (cases i) auto
  qed
qed simp

lemma sum_even_shares:
  assumes "0 < n"
  shows "(\<Sum>i<n. even_share total_uj n i) = total_uj"
proof -
  have "{..<n} \<inter> {i. i < total_uj mod n} = {..<total_uj mod n}"
    using assms mod_less_divisor [OF assms, of total_uj] by auto
  then have "(\<Sum>i<n. even_share total_uj n i) = n * (total_uj div n) + total_uj mod n"
    by (simp add: even_share_def sum.distrib sum.If_cases)
  then show ?thesis by simp
qed

text \<open>The 64-bit computation of share and remainder is exact and cannot overflow.\<close>

lemma share_and_remainder:
  assumes "n \<noteq> 0" and "n \<le> u64_max"
  defines "num \<equiv> of_nat n :: u64"
  shows "unat (delta div num) = unat delta div n"
    and "unat (delta - sat_mul (delta div num) num) = unat delta mod n"
    and "0 < unat delta mod n \<Longrightarrow> unat (delta div num) < u64_max"
proof -
  have num: "unat num = n"
    using assms(2) by (simp add: num_def unat_of_nat)
  show share: "unat (delta div num) = unat delta div n"
    by (simp add: unat_div num)
  have "unat delta div n * n \<le> unat delta" by (rule div_times_less_eq_dividend)
  then have "unat delta div n * n \<le> u64_max"
    using unat_u64_le by (rule order_trans)
  then have prod: "unat (sat_mul (delta div num) num) = unat delta div n * n"
    by (simp add: u64_nat share num)
  then have "sat_mul (delta div num) num \<le> delta"
    by (simp add: word_le_nat_alt)
  then show "unat (delta - sat_mul (delta div num) num) = unat delta mod n"
    by (simp add: unat_sub prod minus_div_mult_eq_mod)
  show "unat (delta div num) < u64_max" if "0 < unat delta mod n"
  proof -
    have "1 < n" using that assms(1) by (cases "n = 1") auto
    moreover have "0 < unat delta" using that by (cases "unat delta = 0") auto
    ultimately have "unat delta div n < unat delta" by (rule div_less_dividend)
    then show ?thesis using unat_u64_le [of delta] share by linarith
  qed
qed

definition fan_out_adds :: "u32 list \<Rightarrow> u64 \<Rightarrow> (u32 \<times> u64) list" where
  "fan_out_adds pids delta_uj =
     (if pids = [] then [(0, delta_uj)]
      else let num_pids = of_nat (length pids); share = delta_uj div num_pids
           in split_shares share (delta_uj - sat_mul share num_pids) pids)"

lemma fan_out_eq_add_all:
  "fan_out sm pids delta_uj r = add_all (add_micro_joules sm) r (fan_out_adds pids delta_uj)"
  by (simp add: fan_out_def fan_out_adds_def split_loop_eq_add_all Let_def)

lemma nth_fan_out_adds:
  assumes "i < length pids" and "length pids \<le> u64_max"
  shows "fst (fan_out_adds pids delta_uj ! i) = pids ! i"
    and "unat (snd (fan_out_adds pids delta_uj ! i)) = even_share (unat delta_uj) (length pids) i"
proof -
  let ?share = "delta_uj div of_nat (length pids)"
  let ?xs = "split_shares ?share (delta_uj - sat_mul ?share (of_nat (length pids))) pids"
  have xs: "fan_out_adds pids delta_uj = ?xs"
    using assms(1) by (auto simp: fan_out_adds_def Let_def)
  show "fst (fan_out_adds pids delta_uj ! i) = pids ! i"
    using assms(1) by (metis xs length_split_shares map_fst_split_shares nth_map)
  have n: "length pids \<noteq> 0" using assms(1) by auto
  note S = share_and_remainder [OF n assms(2), of delta_uj]
  show "unat (snd (fan_out_adds pids delta_uj ! i)) = even_share (unat delta_uj) (length pids) i"
    using nth_split_shares [OF assms(1)] S by (simp add: xs even_share_def)
qed

lemma sum_fan_out_adds:
  assumes "length pids \<le> u64_max"
  shows "sum_deltas (fan_out_adds pids delta_uj) = unat delta_uj"
proof (cases "pids = []")
  case False
  then have n: "0 < length pids" by simp
  have len: "length (fan_out_adds pids delta_uj) = length pids"
    using False by (simp add: fan_out_adds_def Let_def)
  have "sum_deltas (fan_out_adds pids delta_uj)
      = (\<Sum>i<length pids. unat (snd (fan_out_adds pids delta_uj ! i)))"
    by (simp add: sum_deltas_def case_prod_unfold sum_list_sum_nth len atLeast0LessThan)
  also have "\<dots> = (\<Sum>i<length pids. even_share (unat delta_uj) (length pids) i)"
    by (rule sum.cong) (simp_all add: nth_fan_out_adds assms)
  also have "\<dots> = unat delta_uj" using n by (rule sum_even_shares)
  finally show ?thesis .
qed (simp add: fan_out_adds_def)

section \<open>Accounting of the loop\<close>

text \<open>All the micro-joules a registry holds.\<close>

definition registry_uj :: "'t skip_map_ops \<Rightarrow> 't AmalgafyRegistry \<Rightarrow> nat" where
  "registry_uj sm r = (\<Sum>pid\<in>UNIV. uj_of (registry_get sm r pid))"

fun heartbeat_uj :: "heartbeat \<Rightarrow> nat" where
  "heartbeat_uj (Heartbeat sig dt delta cumulative n) = unat delta"
| "heartbeat_uj _ = 0"

text \<open>The active set of a tick is a \<open>Vec\<close>, so its length is a machine word.\<close>

fun pids_fit :: "heartbeat \<Rightarrow> bool" where
  "pids_fit (Heartbeat sig dt delta cumulative n) \<longleftrightarrow> n \<le> u64_max"
| "pids_fit _ \<longleftrightarrow> True"

context skip_map
begin

lemma registry_inv_fan_out:
  "registry_inv sm sm_inv r \<Longrightarrow> registry_inv sm sm_inv (fan_out sm pids d r)"
  by (simp add: fan_out_eq_add_all reg.inv_add_all)

lemma registry_uj_add_all:
  "registry_inv sm sm_inv r \<Longrightarrow> registry_uj sm r + sum_deltas ps \<le> u64_max \<Longrightarrow>
   registry_uj sm (add_all (add_micro_joules sm) r ps) = registry_uj sm r + sum_deltas ps"
  unfolding registry_uj_def by (rule reg.sum_add_all)

lemma registry_uj_fan_out:
  assumes "registry_inv sm sm_inv r" and "length pids \<le> u64_max"
    and "registry_uj sm r + unat d \<le> u64_max"
  shows "registry_uj sm (fan_out sm pids d r) = registry_uj sm r + unat d"
  using registry_uj_add_all [OF assms(1), of "fan_out_adds pids d"] assms(3)
  by (simp add: fan_out_eq_add_all sum_fan_out_adds [OF assms(2)])

lemma sampling_tick_inv:
  assumes "registry_inv sm sm_inv (sl_registry s)"
  shows "registry_inv sm sm_inv (sl_registry (fst (sampling_tick sm ops e s)))"
  using assms by (simp add: sampling_tick_def Let_def registry_inv_fan_out split: prod.split sum.split option.split)

lemma sampling_tick_accounts:
  assumes "registry_inv sm sm_inv (sl_registry s)" and "pids_fit (snd (sampling_tick sm ops e s))"
    and "registry_uj sm (sl_registry s) + heartbeat_uj (snd (sampling_tick sm ops e s)) \<le> u64_max"
  shows "registry_uj sm (sl_registry (fst (sampling_tick sm ops e s)))
           = registry_uj sm (sl_registry s) + heartbeat_uj (snd (sampling_tick sm ops e s))"
  using assms
  by (auto simp: sampling_tick_def Let_def registry_uj_fan_out
      split: prod.split sum.split option.split)

lemma sampling_run_inv:
  "registry_inv sm sm_inv (sl_registry s) \<Longrightarrow>
   registry_inv sm sm_inv (sl_registry (fst (sampling_run sm ops es s)))"
proof (induction es arbitrary: s)
  case (Cons e es)
  then show ?case
    using sampling_tick_inv [of s ops e] by (simp split: prod.split) (metis fst_conv)
qed simp

lemma sampling_run_accounts:
  "registry_inv sm sm_inv (sl_registry s) \<Longrightarrow>
    list_all pids_fit (snd (sampling_run sm ops es s)) \<Longrightarrow>
    registry_uj sm (sl_registry s) + sum_list (map heartbeat_uj (snd (sampling_run sm ops es s))) \<le> u64_max \<Longrightarrow>
    registry_uj sm (sl_registry (fst (sampling_run sm ops es s)))
      = registry_uj sm (sl_registry s) + sum_list (map heartbeat_uj (snd (sampling_run sm ops es s)))"
proof (induction es arbitrary: s)
  case (Cons e es)
  obtain s1 h where tick: "sampling_tick sm ops e s = (s1, h)" by fastforce
  obtain s2 hs where run: "sampling_run sm ops es s1 = (s2, hs)" by fastforce
  have uj1: "registry_uj sm (sl_registry s1) = registry_uj sm (sl_registry s) + heartbeat_uj h"
    using sampling_tick_accounts [OF Cons.prems(1), of ops e] Cons.prems(2,3)
    by (simp add: tick run)
  have "registry_inv sm sm_inv (sl_registry s1)"
    using sampling_tick_inv [OF Cons.prems(1), of ops e] by (simp add: tick)
  then show ?case
    using Cons.IH [of s1] Cons.prems(2,3) by (simp add: tick run uj1)
qed simp

end

lemma cumulative_tick:
  "unat (cumulative_delta_uj (fst (sampling_tick sm ops e s)))
     = min (unat (cumulative_delta_uj s) + heartbeat_uj (snd (sampling_tick sm ops e s))) u64_max"
  by (simp add: sampling_tick_def Let_def u64_nat split: prod.split sum.split option.split)

lemma cumulative_run:
  "unat (cumulative_delta_uj (fst (sampling_run sm ops es s)))
     = min (unat (cumulative_delta_uj s) + sum_list (map heartbeat_uj (snd (sampling_run sm ops es s)))) u64_max"
proof (induction es arbitrary: s)
  case (Cons e es)
  obtain s1 h where tick: "sampling_tick sm ops e s = (s1, h)" by fastforce
  obtain s2 hs where run: "sampling_run sm ops es s1 = (s2, hs)" by fastforce
  show ?case
    using Cons.IH [of s1] cumulative_tick [of sm ops e s] by (simp add: tick run add.assoc)
qed simp

section \<open>The contract of a draining provider\<close>

abbreviation attr_add :: "PidEnergyAttribution \<Rightarrow> u32 \<times> u64" where
  "attr_add a \<equiv> (attr_pid a, attr_attributed_energy_uj a)"

lemma drain_pending_registry:
  "fst (drain_pending sm as r t) = add_all (add_micro_joules sm) r (map attr_add as)"
  by (induction as arbitrary: r t) simp_all

lemma drain_pending_total:
  "unat (snd (drain_pending sm as r t)) = min (unat t + sum_deltas (map attr_add as)) u64_max"
  by (induction as arbitrary: r t) (simp_all add: u64_nat add.assoc)

locale pending_provider =
  fixes sm :: "'t skip_map_ops"
    and pending_of :: "'p \<Rightarrow> PidEnergyAttribution list"
    and enqueue :: "'p \<Rightarrow> PidEnergyAttribution \<Rightarrow> 'p"
    and sync :: "'p \<Rightarrow> 't AmalgafyRegistry \<Rightarrow> 'p \<times> 't AmalgafyRegistry \<times> u64 result"
  assumes pending_enqueue: "pending_of (enqueue p a) = pending_of p @ [a]"
    and sync_drains: "pending_of (fst (sync p r)) = []"
    and sync_registry: "fst (snd (sync p r)) = fst (drain_pending sm (pending_of p) r 0)"
    and sync_total: "snd (snd (sync p r)) = Ok (snd (drain_pending sm (pending_of p) r 0))"
begin

lemma sync_adds: "fst (snd (sync p r)) = add_all (add_micro_joules sm) r (map attr_add (pending_of p))"
  by (simp add: sync_registry drain_pending_registry)

lemma sync_again: "fst (snd (sync (fst (sync p r)) r')) = r'" "snd (snd (sync (fst (sync p r)) r')) = Ok 0"
  by (simp_all add: sync_registry sync_total sync_drains)

text \<open>
  Nothing queued is lost or counted twice: one synchronisation delivers every record that
  was pending, reports their sum, and leaves nothing for the next one.
\<close>

lemma sync_delivers:
  assumes "skip_map sm sm_inv" and "registry_inv sm sm_inv r"
  shows "uj_of (registry_get sm (fst (snd (sync p r))) pid)
           = min (uj_of (registry_get sm r pid) + sum_for pid (map attr_add (pending_of p))) u64_max"
    and "\<exists>total_uj. snd (snd (sync p r)) = Ok total_uj
           \<and> unat total_uj = min (sum_deltas (map attr_add (pending_of p))) u64_max"
  using add_micro_joules_batch_value [OF assms]
  by (simp_all add: sync_adds sync_total drain_pending_total)

lemma sync_conserves:
  assumes "skip_map sm sm_inv" and "registry_inv sm sm_inv r"
    and "registry_uj sm r + sum_deltas (map attr_add (pending_of p)) \<le> u64_max"
  shows "registry_uj sm (fst (snd (sync p r))) = registry_uj sm r + sum_deltas (map attr_add (pending_of p))"
  using skip_map.registry_uj_add_all [OF assms(1,2)] assms(3) by (simp add: sync_adds)

end

section \<open>The test provider\<close>

text \<open>
  The fake provider of the module's own tests: one watt above idle, a fixed set of active
  processes, a clock that advances by 100 ms per sample.
\<close>

record FakeProvider =
  fake_sig :: string
  fake_ticks :: u64
  fake_active_pids :: "u32 list"

definition fake_new :: "u32 list \<Rightarrow> FakeProvider" where
  "fake_new pids = \<lparr>fake_sig = ''FAKE-HW'', fake_ticks = 0, fake_active_pids = pids\<rparr>"

definition fake_sample_power_state :: "unit \<Rightarrow> FakeProvider \<Rightarrow> FakeProvider \<times> PowerSnapshot result" where
  "fake_sample_power_state e p =
     (let t = fake_ticks p + 1 in
      (p\<lparr>fake_ticks := t\<rparr>,
       Ok \<lparr>snap_observed_at_ns = t * 100000000, snap_idle_power_uw = 1000000,
           snap_active_power_uw = 2000000, snap_cpu_power_uw = 0, snap_gpu_power_uw = 0,
           snap_accelerator_power_uw = 0, snap_hardware_signature = fake_sig p\<rparr>))"

definition fake_ops :: "(FakeProvider, unit, 't) provider_ops" where
  "fake_ops =
     \<lparr>trait_sample_power_state = fake_sample_power_state,
      trait_attribute_joules_to_pid = (\<lambda>p pid start stop snap. (p, Ok (baseline_burst pid start stop snap))),
      trait_sync_registry = default_sync_registry,
      trait_hardware_signature = fake_sig,
      trait_active_pids = fake_active_pids\<rparr>"

lemma fake_ops_simps [simp]:
  "trait_sample_power_state fake_ops = fake_sample_power_state"
  "trait_hardware_signature fake_ops = fake_sig"
  "trait_active_pids fake_ops = fake_active_pids"
  by (simp_all add: fake_ops_def)

abbreviation fake_start :: "u32 list \<Rightarrow> (FakeProvider, (u32 \<times> cell_ref) list) sampling_state" where
  "fake_start pids \<equiv> sampling_start (fake_new pids) (registry_new btree_skip_map)"

lemma fake_run_heartbeats:
  "snd (sampling_run btree_skip_map fake_ops [(), (), ()] (fake_start [100, 200])) =
     [FirstSample ''FAKE-HW'' 2000000 1000000,
      Heartbeat ''FAKE-HW'' 100000000 100000 100000 2,
      Heartbeat ''FAKE-HW'' 100000000 100000 200000 2]"
  by (simp add: sampling_tick_def sampling_start_def fake_new_def fake_sample_power_state_def Let_def
      baseline_burst_power_uw_def window_energy_uj_def NANOSECONDS_PER_SECOND_def
      sat_sub_def sat_add_def sat_mul_def)

lemma registry_uj_empty: "registry_uj btree_skip_map (registry_new btree_skip_map) = 0"
  by (simp add: registry_uj_def registry_get_def registry_new_def)

section \<open>Properties\<close>

text \<open>
  The equal split of a tick's energy is fair and total-preserving: with active
  processes, the i-th one receives the quotient, plus one micro-joule if it is among the
  first \<open>delta mod n\<close>; with none, process 0 receives everything.  What the registry
  gains is exactly the tick's energy.  No intermediate 64-bit operation overflows.
\<close>

theorem fan_out_fair_and_conserving:
  assumes "skip_map sm sm_inv" and "registry_inv sm sm_inv r"
    and "length pids \<le> u64_max" and "registry_uj sm r + unat delta \<le> u64_max"
  shows "fan_out sm pids delta r = add_all (add_micro_joules sm) r (fan_out_adds pids delta)
    \<and> (pids = [] \<longrightarrow> fan_out_adds pids delta = [(0, delta)])
    \<and> (\<forall>i < length pids. fst (fan_out_adds pids delta ! i) = pids ! i
         \<and> unat (snd (fan_out_adds pids delta ! i)) = even_share (unat delta) (length pids) i)
    \<and> registry_uj sm (fan_out sm pids delta r) = registry_uj sm r + unat delta"
proof (intro conjI)
  show "fan_out sm pids delta r = add_all (add_micro_joules sm) r (fan_out_adds pids delta)"
    by (rule fan_out_eq_add_all)
  show "registry_uj sm (fan_out sm pids delta r) = registry_uj sm r + unat delta"
    using assms by (rule skip_map.registry_uj_fan_out)
  show "\<forall>i < length pids. fst (fan_out_adds pids delta ! i) = pids ! i
         \<and> unat (snd (fan_out_adds pids delta ! i)) = even_share (unat delta) (length pids) i"
    using nth_fan_out_adds assms(3) by simp
qed (simp add: fan_out_adds_def)

theorem fan_out_fair_and_conserving_witness:
  "registry_uj btree_skip_map (fan_out btree_skip_map [4, 9, 4] 11 (registry_new btree_skip_map)) = 11
   \<and> unat (snd (fan_out_adds [4, 9, 4] 11 ! 1)) = 4 \<and> unat (snd (fan_out_adds [4, 9, 4] 11 ! 2)) = 3"
proof -
  have 1: "length [4, 9, 4 :: u32] \<le> u64_max" by simp
  have 2: "registry_uj btree_skip_map (registry_new btree_skip_map) + unat (11 :: u64) \<le> u64_max"
    by (simp add: registry_uj_empty)
  note T = fan_out_fair_and_conserving [OF btree.skip_map_axioms btree.registry_inv_new 1 2]
  have share: "unat (snd (fan_out_adds [4, 9, 4] 11 ! i)) = even_share (unat (11 :: u64)) (length [4, 9, 4 :: u32]) i"
    if "i < length [4, 9, 4 :: u32]" for i
    using T that by blast
  have "registry_uj btree_skip_map (fan_out btree_skip_map [4, 9, 4] 11 (registry_new btree_skip_map)) = 11"
    using T [THEN conjunct2, THEN conjunct2, THEN conjunct2] by (simp add: registry_uj_empty)
  then show ?thesis
    using share [of 1] share [of 2] by (simp add: even_share_def)
qed

text \<open>
  C37.  A telemetry failure is isolated: the failing tick changes neither the registry nor
  the cumulative total and forgets the previous snapshot, and the tick after it, whether
  it fails or succeeds, only re-seeds; the skipped gap is never billed to anyone.
\<close>

theorem failed_sample_is_isolated:
  assumes "trait_sample_power_state ops e1 (sl_provider s) = (p1, Err msg)"
  shows "previous_snapshot (fst (sampling_tick sm ops e1 s)) = None
    \<and> snd (sampling_tick sm ops e1 s) = SampleFailed (trait_hardware_signature ops p1) msg
    \<and> sl_registry (fst (sampling_run sm ops [e1, e2] s)) = sl_registry s
    \<and> cumulative_delta_uj (fst (sampling_run sm ops [e1, e2] s)) = cumulative_delta_uj s"
  using assms by (simp add: sampling_tick_def split: prod.split sum.split)

text \<open>A provider that fails on demand, for the witness.\<close>

definition flaky_ops :: "(FakeProvider, bool, 't) provider_ops" where
  "flaky_ops =
     \<lparr>trait_sample_power_state =
        (\<lambda>ok p. if ok then fake_sample_power_state () p else (p, Err ''telemetry unavailable'')),
      trait_attribute_joules_to_pid = (\<lambda>p pid start stop snap. (p, Ok (baseline_burst pid start stop snap))),
      trait_sync_registry = default_sync_registry,
      trait_hardware_signature = fake_sig,
      trait_active_pids = fake_active_pids\<rparr>"

theorem failed_sample_is_isolated_witness:
  "sl_registry (fst (sampling_run btree_skip_map flaky_ops [False, True] (fake_start [100])))
     = registry_new btree_skip_map"
  using failed_sample_is_isolated [of flaky_ops False "fake_start [100]" "fake_new [100]"
      "''telemetry unavailable''" btree_skip_map True]
  by (simp add: flaky_ops_def sampling_start_def)

text \<open>
  C8.  A whole run of the loop keeps the books: the registry stays well-formed, the
  cumulative total is the (saturating) sum of the energies in the heartbeats, and the
  registry has grown by exactly that energy, as long as 64 bits can hold it.
\<close>

theorem sampling_run_accounts_for_all_energy:
  assumes "skip_map sm sm_inv" and "registry_inv sm sm_inv r"
    and "sampling_run sm ops es (sampling_start p r) = (s, hs)"
    and "list_all pids_fit hs"
    and "registry_uj sm r + sum_list (map heartbeat_uj hs) \<le> u64_max"
  shows "registry_inv sm sm_inv (sl_registry s)
    \<and> registry_uj sm (sl_registry s) = registry_uj sm r + unat (cumulative_delta_uj s)
    \<and> unat (cumulative_delta_uj s) = sum_list (map heartbeat_uj hs)"
proof -
  have start: "sl_registry (sampling_start p r) = r" "cumulative_delta_uj (sampling_start p r) = 0"
    by (simp_all add: sampling_start_def)
  have "registry_inv sm sm_inv (sl_registry s)"
    using skip_map.sampling_run_inv [OF assms(1), of "sampling_start p r" ops es] assms(2,3)
    by (simp add: start)
  moreover have "unat (cumulative_delta_uj s) = sum_list (map heartbeat_uj hs)"
    using cumulative_run [of sm ops es "sampling_start p r"] assms(3,5) by (simp add: start)
  moreover have "registry_uj sm (sl_registry s) = registry_uj sm r + sum_list (map heartbeat_uj hs)"
    using skip_map.sampling_run_accounts [OF assms(1), of "sampling_start p r" ops es] assms(2-5)
    by (simp add: start)
  ultimately show ?thesis by simp
qed

theorem sampling_run_accounts_for_all_energy_witness:
  "registry_uj btree_skip_map
     (sl_registry (fst (sampling_run btree_skip_map fake_ops [(), (), ()] (fake_start [100, 200])))) = 200000"
proof -
  obtain s hs where run: "sampling_run btree_skip_map fake_ops [(), (), ()] (fake_start [100, 200]) = (s, hs)"
    by fastforce
  have hs: "hs = [FirstSample ''FAKE-HW'' 2000000 1000000,
      Heartbeat ''FAKE-HW'' 100000000 100000 100000 2,
      Heartbeat ''FAKE-HW'' 100000000 100000 200000 2]"
    using fake_run_heartbeats run by simp
  have fit: "list_all pids_fit hs"
    and room: "registry_uj btree_skip_map (registry_new btree_skip_map) + sum_list (map heartbeat_uj hs) \<le> u64_max"
    by (simp_all add: hs registry_uj_empty)
  show ?thesis
    using sampling_run_accounts_for_all_energy
      [OF btree.skip_map_axioms btree.registry_inv_new run fit room]
    unfolding run by (simp add: hs registry_uj_empty)
qed

end
