(* ===== verification/Ledger.thy ===== *)
theory Ledger
  imports Provider
begin

text \<open>
  What the sampling loop of \<open>src/core/provider.rs\<close> promises, stated without machine words,
  registries or loops: a ledger gives every process a natural number of micro-joules.  An
  observation is a sample's result together with the active processes; a failed sample
  forgets the last one, two samples in a row bill the exact energy between them, divided
  evenly.  The loop implements this specification as long as no power exceeds 18.4 kW and
  the total stays below the 64-bit limit.
\<close>

section \<open>The specification\<close>

type_synonym ledger = "u32 \<Rightarrow> nat"
type_synonym observation = "PowerSnapshot result \<times> u32 list"

definition burst_uw :: "PowerSnapshot \<Rightarrow> nat" where
  "burst_uw snap = unat (snap_active_power_uw snap) - unat (snap_idle_power_uw snap)"

definition exact_uj :: "PowerSnapshot \<Rightarrow> PowerSnapshot \<Rightarrow> nat" where
  "exact_uj prev snap =
     burst_uw snap * (unat (snap_observed_at_ns snap) - unat (snap_observed_at_ns prev)) div 1000000000"

definition bill :: "u32 list \<Rightarrow> nat \<Rightarrow> ledger \<Rightarrow> ledger" where
  "bill pids uj l =
     (if pids = [] then l(0 := l 0 + uj)
      else (\<lambda>pid. l pid
        + (\<Sum>i<length pids. if pids ! i = pid then even_share uj (length pids) i else 0)))"

fun ledger_step :: "observation \<Rightarrow> ledger \<times> PowerSnapshot option \<Rightarrow> ledger \<times> PowerSnapshot option" where
  "ledger_step (Inl err, pids) (l, prev) = (l, None)"
| "ledger_step (Inr snap, pids) (l, None) = (l, Some snap)"
| "ledger_step (Inr snap, pids) (l, Some prev) = (bill pids (exact_uj prev snap) l, Some snap)"

text \<open>What a run of the loop observes of its provider.\<close>

fun observations :: "('p, 'e, 't) provider_ops \<Rightarrow> 'e list \<Rightarrow> 'p \<Rightarrow> observation list" where
  "observations ops [] p = []"
| "observations ops (e # es) p =
     (case trait_sample_power_state ops e p of
        (p', res) \<Rightarrow> (res, trait_active_pids ops p') # observations ops es p')"

text \<open>
  Within limits: the active set is a machine-sized list and the power is at most 18.4 kW,
  the largest for which every sub-second product fits 64 bits.
\<close>

fun within_limits :: "observation \<Rightarrow> bool" where
  "within_limits (res, pids) \<longleftrightarrow>
     length pids \<le> u64_max
     \<and> (case res of Inl _ \<Rightarrow> True | Inr snap \<Rightarrow> burst_uw snap \<le> 18446744073)"

section \<open>Accounts of the specification\<close>

definition ledger_total :: "ledger \<Rightarrow> nat" where
  "ledger_total l = (\<Sum>pid\<in>UNIV. l pid)"

lemma ledger_total_bill: "ledger_total (bill pids uj l) = ledger_total l + uj"
proof (cases "pids = []")
  case True
  have "(\<Sum>pid\<in>UNIV. (l(0 := l 0 + uj)) pid) = (\<Sum>pid\<in>UNIV. l pid + (if pid = 0 then uj else 0))"
    by (rule sum.cong) simp_all
  with True show ?thesis by (simp add: bill_def ledger_total_def sum.distrib)
next
  case False
  have "(\<Sum>pid\<in>UNIV. \<Sum>i<length pids. if pids ! i = pid then even_share uj (length pids) i else 0)
      = (\<Sum>i<length pids. \<Sum>pid\<in>UNIV. if pids ! i = pid then even_share uj (length pids) i else 0)"
    by (rule sum.swap)
  also have "\<dots> = (\<Sum>i<length pids. even_share uj (length pids) i)" by simp
  also have "\<dots> = uj" using False by (intro sum_even_shares) simp
  finally show ?thesis using False by (simp add: bill_def ledger_total_def sum.distrib)
qed

lemma ledger_step_total: "ledger_total (fst a) \<le> ledger_total (fst (ledger_step ob a))"
  by (induction ob a rule: ledger_step.induct) (simp_all add: ledger_total_bill)

lemma ledger_steps_total: "ledger_total (fst a) \<le> ledger_total (fst (fold ledger_step obs a))"
proof (induction obs arbitrary: a)
  case (Cons ob obs)
  have "ledger_total (fst a) \<le> ledger_total (fst (ledger_step ob a))" by (rule ledger_step_total)
  also have "\<dots> \<le> ledger_total (fst (fold ledger_step obs (ledger_step ob a)))" by (rule Cons)
  finally show ?case by simp
qed simp

section \<open>The loop implements it\<close>

definition ledger_of :: "'t skip_map_ops \<Rightarrow> 't AmalgafyRegistry \<Rightarrow> ledger" where
  "ledger_of sm r pid = uj_of (registry_get sm r pid)"

definition ledger_abs :: "'t skip_map_ops \<Rightarrow> ('p, 't) sampling_state \<Rightarrow> ledger \<times> PowerSnapshot option" where
  "ledger_abs sm s = (ledger_of sm (sl_registry s), previous_snapshot s)"

lemma sum_for_nth: "sum_for pid xs = (\<Sum>i<length xs. if fst (xs ! i) = pid then unat (snd (xs ! i)) else 0)"
  by (simp add: sum_for_def sum_list_sum_nth atLeast0LessThan case_prod_unfold)

lemma ledger_of_le_total: "ledger_of sm r pid \<le> ledger_total (ledger_of sm r)"
  unfolding ledger_total_def by (rule member_le_sum) simp_all

lemma window_energy_is_exact_uj:
  assumes "burst_uw snap \<le> 18446744073" and "exact_uj prev snap \<le> u64_max"
  shows "unat (window_energy_uj (baseline_burst_power_uw (snap_active_power_uw snap) (snap_idle_power_uw snap))
    (sat_sub (snap_observed_at_ns snap) (snap_observed_at_ns prev))) = exact_uj prev snap"
proof -
  let ?p = "baseline_burst_power_uw (snap_active_power_uw snap) (snap_idle_power_uw snap)"
  let ?w = "sat_sub (snap_observed_at_ns snap) (snap_observed_at_ns prev)"
  have p: "unat ?p = burst_uw snap" by (simp add: baseline_burst_power_uw_def u64_nat burst_uw_def)
  have "unat ?p * (unat ?w mod 1000000000) \<le> 18446744073 * 999999999"
    using assms(1) by (intro mult_le_mono) (simp_all add: p less_Suc_eq_le [symmetric])
  then have "unat ?p * (unat ?w mod 1000000000) \<le> u64_max" by simp
  from window_energy_uj_exact [OF this] show ?thesis
    using assms(2) by (simp add: baseline_burst_power_uw_def burst_uw_def exact_uj_def u64_nat)
qed

context skip_map
begin

lemma ledger_of_fan_out:
  assumes "registry_inv sm sm_inv r" and "length pids \<le> u64_max"
    and "ledger_total (bill pids (unat d) (ledger_of sm r)) \<le> u64_max"
  shows "ledger_of sm (fan_out sm pids d r) = bill pids (unat d) (ledger_of sm r)"
proof
  fix pid
  let ?adds = "fan_out_adds pids d"
  have spec: "bill pids (unat d) (ledger_of sm r) pid = ledger_of sm r pid + sum_for pid ?adds"
  proof (cases "pids = []")
    case False
    then have len: "length ?adds = length pids" by (simp add: fan_out_adds_def Let_def)
    have "sum_for pid ?adds
        = (\<Sum>i<length pids. if pids ! i = pid then even_share (unat d) (length pids) i else 0)"
      unfolding sum_for_nth len by (rule sum.cong) (simp_all add: nth_fan_out_adds assms(2))
    with False show ?thesis by (simp add: bill_def)
  qed (simp add: bill_def fan_out_adds_def)
  have "bill pids (unat d) (ledger_of sm r) pid \<le> ledger_total (bill pids (unat d) (ledger_of sm r))"
    unfolding ledger_total_def by (rule member_le_sum) simp_all
  with assms(3) have "ledger_of sm r pid + sum_for pid ?adds \<le> u64_max" unfolding spec by linarith
  then show "ledger_of sm (fan_out sm pids d r) pid = bill pids (unat d) (ledger_of sm r) pid"
    unfolding spec using reg.uj_add_all [OF assms(1), of ?adds pid]
    by (simp add: ledger_of_def fan_out_eq_add_all)
qed

lemma sampling_tick_refines:
  assumes "registry_inv sm sm_inv (sl_registry s)"
    and "trait_sample_power_state ops e (sl_provider s) = (p, res)"
    and "within_limits (res, trait_active_pids ops p)"
    and "ledger_total (fst (ledger_step (res, trait_active_pids ops p) (ledger_abs sm s))) \<le> u64_max"
  shows "ledger_abs sm (fst (sampling_tick sm ops e s))
    = ledger_step (res, trait_active_pids ops p) (ledger_abs sm s)"
proof (cases res)
  case (Inl err)
  then show ?thesis using assms(2) by (simp add: sampling_tick_def ledger_abs_def)
next
  case (Inr snap)
  show ?thesis
  proof (cases "previous_snapshot s")
    case None
    then show ?thesis using assms(2) Inr by (simp add: sampling_tick_def ledger_abs_def)
  next
    case (Some prev)
    let ?l = "ledger_of sm (sl_registry s)" and ?pids = "trait_active_pids ops p"
    have room: "ledger_total (bill ?pids (exact_uj prev snap) ?l) \<le> u64_max"
      using assms(4) Inr Some by (simp add: ledger_abs_def)
    then have "exact_uj prev snap \<le> u64_max" by (simp add: ledger_total_bill)
    with assms(3) Inr have
      e: "unat (window_energy_uj (baseline_burst_power_uw (snap_active_power_uw snap) (snap_idle_power_uw snap))
        (sat_sub (snap_observed_at_ns snap) (snap_observed_at_ns prev))) = exact_uj prev snap"
      by (intro window_energy_is_exact_uj) simp_all
    have "length ?pids \<le> u64_max" using assms(3) by simp
    from ledger_of_fan_out [OF assms(1) this room [folded e]] show ?thesis
      using assms(2) Inr Some e by (simp add: sampling_tick_def ledger_abs_def Let_def)
  qed
qed

lemma sampling_run_refines:
  "registry_inv sm sm_inv (sl_registry s) \<Longrightarrow> list_all within_limits (observations ops es (sl_provider s)) \<Longrightarrow>
   ledger_total (fst (fold ledger_step (observations ops es (sl_provider s)) (ledger_abs sm s))) \<le> u64_max \<Longrightarrow>
   ledger_abs sm (fst (sampling_run sm ops es s))
     = fold ledger_step (observations ops es (sl_provider s)) (ledger_abs sm s)"
proof (induction es arbitrary: s)
  case (Cons e es)
  obtain p res where sample: "trait_sample_power_state ops e (sl_provider s) = (p, res)" by fastforce
  obtain s1 h where tick: "sampling_tick sm ops e s = (s1, h)" by fastforce
  let ?ob = "(res, trait_active_pids ops p)"
  have prov: "sl_provider s1 = p"
    using tick sample by (auto simp: sampling_tick_def Let_def split: sum.splits option.splits)
  have "ledger_total (fst (ledger_step ?ob (ledger_abs sm s)))
      \<le> ledger_total (fst (fold ledger_step (observations ops es p) (ledger_step ?ob (ledger_abs sm s))))"
    by (rule ledger_steps_total)
  then have "ledger_abs sm s1 = ledger_step ?ob (ledger_abs sm s)"
    using sampling_tick_refines [OF Cons.prems(1) sample] Cons.prems(2,3) by (simp add: sample tick)
  moreover have "registry_inv sm sm_inv (sl_registry s1)"
    using sampling_tick_inv [OF Cons.prems(1), of ops e] by (simp add: tick)
  ultimately show ?case
    using Cons.IH [of s1] Cons.prems(2,3) by (simp add: sample prov tick split: prod.split) (metis fst_conv)
qed simp

end

section \<open>Properties\<close>

text \<open>
  C4.  The loop implements its specification, process by process: after any run, what the
  registry holds for every single process, and the remembered snapshot, are exactly what
  the ledger specification computes from the observed samples with unbounded arithmetic,
  provided no power exceeds 18.4 kW and the specified total fits 64 bits.
\<close>

theorem sampling_run_refines_ledger:
  assumes "skip_map sm sm_inv" and "registry_inv sm sm_inv r"
    and "list_all within_limits (observations ops es p)"
    and "fold ledger_step (observations ops es p) (ledger_of sm r, None) = (l, prev)"
    and "ledger_total l \<le> u64_max"
  shows "(\<lambda>pid. uj_of (registry_get sm (sl_registry (fst (sampling_run sm ops es (sampling_start p r)))) pid)) = l
    \<and> previous_snapshot (fst (sampling_run sm ops es (sampling_start p r))) = prev"
proof -
  have start: "sl_registry (sampling_start p r) = r" "sl_provider (sampling_start p r) = p"
    "ledger_abs sm (sampling_start p r) = (ledger_of sm r, None)"
    by (simp_all add: sampling_start_def ledger_abs_def)
  have "ledger_abs sm (fst (sampling_run sm ops es (sampling_start p r))) = (l, prev)"
    using skip_map.sampling_run_refines [OF assms(1), of "sampling_start p r" ops es] assms(2-5)
    by (simp add: start)
  then show ?thesis by (simp add: ledger_abs_def ledger_of_def [abs_def])
qed

text \<open>Three ticks of the test provider bill two intervals of 0.1 s at one watt.\<close>

lemma fake_observations:
  "observations fake_ops [(), (), ()] (fake_new [100, 200]) =
     map (\<lambda>t. (Inr \<lparr>snap_observed_at_ns = t * 100000000, snap_idle_power_uw = 1000000,
           snap_active_power_uw = 2000000, snap_cpu_power_uw = 0, snap_gpu_power_uw = 0,
           snap_accelerator_power_uw = 0, snap_hardware_signature = ''FAKE-HW''\<rparr>, [100, 200])) [1, 2, 3]"
  by (simp add: fake_sample_power_state_def fake_new_def Let_def)

abbreviation btree_fake :: "(FakeProvider, unit, (u32 \<times> cell_ref) list) provider_ops" where
  "btree_fake \<equiv> fake_ops"

lemma ledger_of_empty: "ledger_of btree_skip_map (registry_new btree_skip_map) = (\<lambda>_. 0)"
  by (simp add: ledger_of_def [abs_def] registry_get_def registry_new_def)

theorem sampling_run_refines_ledger_witness:
  "uj_of (registry_get btree_skip_map (sl_registry
     (fst (sampling_run btree_skip_map fake_ops [(), (), ()] (fake_start [100, 200])))) 200) = 100000"
proof -
  obtain l prev where spec: "fold ledger_step (observations btree_fake [(), (), ()] (fake_new [100, 200]))
      (ledger_of btree_skip_map (registry_new btree_skip_map), None) = (l, prev)"
    by fastforce
  have l: "l = bill [100, 200] 100000 (bill [100, 200] 100000 (\<lambda>_. 0))"
    using spec unfolding fake_observations ledger_of_empty by (simp add: exact_uj_def burst_uw_def)
  have "ledger_total (\<lambda>_. 0) = 0" by (simp add: ledger_total_def)
  then have total: "ledger_total l \<le> u64_max" by (simp add: l ledger_total_bill)
  have limits: "list_all within_limits (observations btree_fake [(), (), ()] (fake_new [100, 200]))"
    unfolding fake_observations by (simp add: burst_uw_def)
  note R = sampling_run_refines_ledger [OF btree.skip_map_axioms btree.registry_inv_new limits spec total]
  have "l 200 = 100000" by (simp add: l bill_def even_share_def lessThan_Suc) (simp flip: numeral_2_eq_2)
  with fun_cong [OF conjunct1 [OF R], of 200] show ?thesis by simp
qed

end
