(* ===== verification/Sampling_Windows.thy ===== *)
theory Sampling_Windows
  imports Ledger
begin

text \<open>
  The time the sampling loop of \<open>src/core/provider.rs\<close> bills: a heartbeat covers the window
  from the previous successful sample to the current one, and a failed sample starts over.
  The theorem says how the windows of a run lie on the time line.
\<close>

section \<open>The windows of a run\<close>

fun heartbeat_dt_ns :: "heartbeat \<Rightarrow> nat" where
  "heartbeat_dt_ns (Heartbeat sig dt delta cumulative n) = unat dt"
| "heartbeat_dt_ns _ = 0"

text \<open>The times of the successful samples, and the time from the first to the last of a list.\<close>

definition sample_times :: "observation list \<Rightarrow> nat list" where
  "sample_times obs = map (unat \<circ> snap_observed_at_ns) (List.map_filter (result_ok \<circ> fst) obs)"

lemma sample_times_simps [simp]:
  "sample_times [] = []"
  "sample_times ((Inl err, pids) # obs) = sample_times obs"
  "sample_times ((Inr snap, pids) # obs) = unat (snap_observed_at_ns snap) # sample_times obs"
  by (simp_all add: sample_times_def List.map_filter_simps)

definition elapsed :: "nat list \<Rightarrow> nat" where
  "elapsed ts = (if ts = [] then 0 else last ts - hd ts)"

lemma elapsed_Cons: "sorted (t # ts) \<Longrightarrow> elapsed ts \<le> elapsed (t # ts)"
  by (cases ts) (auto simp: elapsed_def)

lemma elapsed_Cons_Cons: "sorted (t # u # ts) \<Longrightarrow> (u - t) + elapsed (u # ts) = elapsed (t # u # ts)"
proof -
  assume "sorted (t # u # ts)"
  then have "t \<le> u" "u \<le> last (u # ts)" by (auto simp: last_in_set)
  then show ?thesis by (simp add: elapsed_def)
qed

definition known_times :: "('p, 't) sampling_state \<Rightarrow> nat list" where
  "known_times s = (case previous_snapshot s of None \<Rightarrow> [] | Some prev \<Rightarrow> [unat (snap_observed_at_ns prev)])"

lemma run_windows:
  "sorted (known_times s @ sample_times (observations ops es (sl_provider s))) \<Longrightarrow>
   sum_list (map heartbeat_dt_ns (snd (sampling_run sm ops es s)))
       \<le> elapsed (known_times s @ sample_times (observations ops es (sl_provider s)))
   \<and> (list_all (\<lambda>ob. is_ok (fst ob)) (observations ops es (sl_provider s)) \<longrightarrow>
      sum_list (map heartbeat_dt_ns (snd (sampling_run sm ops es s)))
        = elapsed (known_times s @ sample_times (observations ops es (sl_provider s))))"
proof (induction es arbitrary: s)
  case Nil
  then show ?case by (simp add: elapsed_def known_times_def split: option.splits)
next
  case (Cons e es)
  obtain p res where sample: "trait_sample_power_state ops e (sl_provider s) = (p, res)" by fastforce
  obtain s1 h where tick: "sampling_tick sm ops e s = (s1, h)" by fastforce
  have prov: "sl_provider s1 = p"
    using tick sample by (auto simp: sampling_tick_def Let_def split: sum.splits option.splits)
  let ?ts = "sample_times (observations ops es p)"
  show ?case
  proof (cases res)
    case (Inl err)
    then have s1: "known_times s1 = []" "heartbeat_dt_ns h = 0"
      using tick sample by (auto simp: sampling_tick_def known_times_def)
    have "sorted ?ts" using Cons.prems by (simp add: sample Inl sorted_append)
    then have "sum_list (map heartbeat_dt_ns (snd (sampling_run sm ops es s1))) \<le> elapsed ?ts"
      using Cons.IH [of s1] by (simp add: s1 prov)
    also have "\<dots> \<le> elapsed (known_times s @ ?ts)"
      using Cons.prems elapsed_Cons by (auto simp: known_times_def sample Inl split: option.splits)
    finally show ?thesis by (simp add: sample tick s1 Inl case_prod_unfold)
  next
    case (Inr snap)
    then have s1: "known_times s1 = [unat (snap_observed_at_ns snap)]"
      and h: "heartbeat_dt_ns h = (case previous_snapshot s of None \<Rightarrow> 0
        | Some prev \<Rightarrow> unat (snap_observed_at_ns snap) - unat (snap_observed_at_ns prev))"
      using tick sample
      by (auto simp: sampling_tick_def known_times_def Let_def u64_nat split: option.splits)
    let ?t = "unat (snap_observed_at_ns snap)"
    have "sorted (?t # ?ts)" using Cons.prems by (simp add: sample Inr sorted_append)
    then have IH: "sum_list (map heartbeat_dt_ns (snd (sampling_run sm ops es s1))) \<le> elapsed (?t # ?ts)"
      "list_all (\<lambda>ob. is_ok (fst ob)) (observations ops es p) \<Longrightarrow>
        sum_list (map heartbeat_dt_ns (snd (sampling_run sm ops es s1))) = elapsed (?t # ?ts)"
      using Cons.IH [of s1] by (simp_all add: s1 prov)
    have "heartbeat_dt_ns h + elapsed (?t # ?ts) = elapsed (known_times s @ ?t # ?ts)"
      using Cons.prems elapsed_Cons_Cons
      by (auto simp: h known_times_def sample Inr split: option.splits)
    with IH show ?thesis by (simp add: sample tick Inr case_prod_unfold)
  qed
qed

section \<open>Properties\<close>

text \<open>
  C15.  The windows of the heartbeats tile the observed time.  If the clock does not step
  back between samples, the windows a run bills add up to at most the time from the first
  to the last successful sample, so no instant is billed twice; and to exactly that time
  when no sample fails.
\<close>

theorem heartbeat_windows_tile:
  assumes "sorted (sample_times (observations ops es p))"
  shows "sum_list (map heartbeat_dt_ns (snd (sampling_run sm ops es (sampling_start p r))))
      \<le> elapsed (sample_times (observations ops es p))
    \<and> (list_all (\<lambda>ob. is_ok (fst ob)) (observations ops es p) \<longrightarrow>
       sum_list (map heartbeat_dt_ns (snd (sampling_run sm ops es (sampling_start p r))))
         = elapsed (sample_times (observations ops es p)))"
  using run_windows [of "sampling_start p r" ops es sm] assms
  by (simp add: known_times_def sampling_start_def)

theorem heartbeat_windows_tile_witness:
  "sum_list (map heartbeat_dt_ns (snd (sampling_run btree_skip_map btree_fake [(), (), ()]
     (sampling_start (fake_new [100, 200]) (registry_new btree_skip_map))))) = 200000000"
  using heartbeat_windows_tile [of btree_fake "[(), (), ()]" "fake_new [100, 200]" btree_skip_map
      "registry_new btree_skip_map"]
  unfolding fake_observations by (simp add: elapsed_def)

end
