(* ===== verification/Host.thy ===== *)
theory Host
  imports Prelude
begin

text \<open>
  What the program uses of the standard library and reads from the host: decimal
  \<open>Display\<close> and \<open>parse::<u64>\<close>, \<open>str::trim\<close>, path concatenation, and a record of what
  the environment, the file system, the process table and the clock answer.  A Rust
  string is the list of its UTF-8 bytes.
\<close>

section \<open>Decimal numbers\<close>

definition digit_char :: "nat \<Rightarrow> char" where
  "digit_char d = char_of (48 + d)"

fun show_nat :: "nat \<Rightarrow> string" where
  "show_nat n = (if n < 10 then [digit_char n] else show_nat (n div 10) @ [digit_char (n mod 10)])"

declare show_nat.simps [simp del]

definition show_int :: "int \<Rightarrow> string" where
  "show_int i = (if i < 0 then ''-'' @ show_nat (nat (- i)) else show_nat (nat i))"

definition to_digit :: "char \<Rightarrow> nat option" where
  "to_digit c = (let n = of_char c in if 48 \<le> n \<and> n \<le> (57 :: nat) then Some (n - 48) else None)"

text \<open>\<open>u64::from_str\<close>: an optional plus sign, then digits accumulated with overflow checks.\<close>

fun parse_digits :: "string \<Rightarrow> u64 \<Rightarrow> u64 result" where
  "parse_digits [] acc = Ok acc"
| "parse_digits (c # cs) acc =
     (case to_digit c of
        None \<Rightarrow> Err ''invalid digit found in string''
      | Some x \<Rightarrow>
          if unat acc * 10 + x \<le> u64_max then parse_digits cs (acc * 10 + of_nat x)
          else Err ''number too large to fit in target type'')"

definition parse_u64 :: "string \<Rightarrow> u64 result" where
  "parse_u64 s =
     (if s = [] then Err ''cannot parse integer from empty string''
      else if s = ''+'' \<or> s = ''-'' then Err ''invalid digit found in string''
      else if hd s = CHR ''+'' then parse_digits (tl s) 0
      else parse_digits s 0)"

section \<open>Trimming white space\<close>

text \<open>
  The UTF-8 encodings of the code points with the Unicode property \<open>White_Space\<close>.
\<close>

definition white_space :: "string list" where
  "white_space =
     [[CHR 0x09], [CHR 0x0A], [CHR 0x0B], [CHR 0x0C], [CHR 0x0D], [CHR 0x20],
      [CHR 0xC2, CHR 0x85], [CHR 0xC2, CHR 0xA0], [CHR 0xE1, CHR 0x9A, CHR 0x80],
      [CHR 0xE2, CHR 0x80, CHR 0x80], [CHR 0xE2, CHR 0x80, CHR 0x81], [CHR 0xE2, CHR 0x80, CHR 0x82],
      [CHR 0xE2, CHR 0x80, CHR 0x83], [CHR 0xE2, CHR 0x80, CHR 0x84], [CHR 0xE2, CHR 0x80, CHR 0x85],
      [CHR 0xE2, CHR 0x80, CHR 0x86], [CHR 0xE2, CHR 0x80, CHR 0x87], [CHR 0xE2, CHR 0x80, CHR 0x88],
      [CHR 0xE2, CHR 0x80, CHR 0x89], [CHR 0xE2, CHR 0x80, CHR 0x8A], [CHR 0xE2, CHR 0x80, CHR 0xA8],
      [CHR 0xE2, CHR 0x80, CHR 0xA9], [CHR 0xE2, CHR 0x80, CHR 0xAF], [CHR 0xE2, CHR 0x81, CHR 0x9F],
      [CHR 0xE3, CHR 0x80, CHR 0x80]]"

function strip_leading :: "string list \<Rightarrow> string \<Rightarrow> string" where
  "strip_leading ws s =
     (case find (\<lambda>w. w \<noteq> [] \<and> length w \<le> length s \<and> take (length w) s = w) ws of
        None \<Rightarrow> s
      | Some w \<Rightarrow> strip_leading ws (drop (length w) s))"
  by pat_completeness auto
termination
proof (relation "measure (length \<circ> snd)")
  fix ws s w
  assume "find (\<lambda>w. w \<noteq> [] \<and> length w \<le> length s \<and> take (length w) s = w) ws = Some w"
  then have "w \<noteq> [] \<and> length w \<le> length s" by (auto simp: find_Some_iff)
  then show "((ws, drop (length w) s), ws, s) \<in> measure (length \<circ> snd)" by (cases w) auto
qed simp

declare strip_leading.simps [simp del]

definition trim_start :: "string \<Rightarrow> string" where
  "trim_start s = strip_leading white_space s"

definition trim_end :: "string \<Rightarrow> string" where
  "trim_end s = rev (strip_leading (map rev white_space) (rev s))"

definition trim :: "string \<Rightarrow> string" where
  "trim s = trim_end (trim_start s)"

section \<open>Paths\<close>

text \<open>\<open>PathBuf::push\<close>: an absolute component replaces the path, otherwise it is appended.\<close>

definition path_push :: "string \<Rightarrow> string \<Rightarrow> string" where
  "path_push p c =
     (if c \<noteq> [] \<and> hd c = CHR ''/'' then c
      else if p = [] \<or> last p = CHR ''/'' then p @ c
      else p @ ''/'' @ c)"

section \<open>The host\<close>

text \<open>
  \<open>host_now\<close> is the time since the Unix epoch in nanoseconds, \<open>None\<close> when the clock is
  before it; \<open>host_read_dir\<close> lists the entries of a directory, each of which may be
  unreadable.
\<close>

record host =
  host_env_var :: "string \<Rightarrow> string result"
  host_read_to_string :: "string \<Rightarrow> string result"
  host_read_dir :: "string \<Rightarrow> (string result) list result"
  host_process_id :: u32
  host_now :: "u128 option"

text \<open>
  \<open>SystemTime::now().duration_since(UNIX_EPOCH).map(|d| d.as_nanos()).unwrap_or(0)\<close>
  narrowed to 64 bits, with the default used when the conversion overflows.
\<close>

definition now_ns_or :: "u64 \<Rightarrow> host \<Rightarrow> u64" where
  "now_ns_or d h = unwrap_or d (u64_try_from (unwrap_or 0 (host_now h)))"

text \<open>\<open>Iterator::flatten\<close> over results: errors are skipped.\<close>

definition flatten_ok :: "(string result) list \<Rightarrow> string list" where
  "flatten_ok rs = List.map_filter result_ok rs"

section \<open>Round trips\<close>

lemma to_digit_digit_char [simp]: "d < 10 \<Longrightarrow> to_digit (digit_char d) = Some d"
  by (simp add: to_digit_def digit_char_def Let_def)

lemma show_nat_nonempty [simp]: "show_nat n \<noteq> []"
  by (subst show_nat.simps) simp

lemma set_show_nat: "c \<in> set (show_nat n) \<Longrightarrow> \<exists>d < 10. c = digit_char d"
proof (induction n rule: show_nat.induct)
  case (1 n)
  then show ?case
    by (cases "n < 10") (auto simp: show_nat.simps [of n] intro: exI [of _ "n mod 10"])
qed

lemma parse_digits_append:
  "parse_digits (xs @ ys) acc =
     (case parse_digits xs acc of Inl e \<Rightarrow> Inl e | Inr a \<Rightarrow> parse_digits ys a)"
  by (induction xs acc rule: parse_digits.induct) (simp_all split: option.split)

lemma parse_digits_show_nat: "n \<le> u64_max \<Longrightarrow> parse_digits (show_nat n) 0 = Ok (of_nat n)"
proof (induction n rule: show_nat.induct)
  case (1 n)
  show ?case
  proof (cases "n < 10")
    case True
    then show ?thesis by (simp add: show_nat.simps [of n])
  next
    case False
    have le: "n div 10 \<le> u64_max" using "1.prems" by linarith
    then have IH: "parse_digits (show_nat (n div 10)) 0 = Ok (of_nat (n div 10))"
      using "1.IH" False by simp
    have u: "unat (of_nat (n div 10) :: u64) = n div 10"
      using le by (simp add: unat_of_nat)
    have "of_nat (n div 10) * 10 + of_nat (n mod 10) = (of_nat (n div 10 * 10 + n mod 10) :: u64)"
      by (simp only: of_nat_add of_nat_mult of_nat_numeral)
    also have "n div 10 * 10 + n mod 10 = n" by simp
    finally have "of_nat (n div 10) * 10 + of_nat (n mod 10) = (of_nat n :: u64)" .
    then show ?thesis
      using False "1.prems" by (simp add: show_nat.simps [of n] parse_digits_append IH u)
  qed
qed

lemma digit_char_not: "d < 10 \<Longrightarrow> digit_char d \<noteq> CHR ''+''" "d < 10 \<Longrightarrow> digit_char d \<noteq> CHR ''-''"
  by (auto simp: digit_char_def dest: arg_cong [where f = "of_char :: char \<Rightarrow> nat"])

lemma parse_u64_show_nat: "n \<le> u64_max \<Longrightarrow> parse_u64 (show_nat n) = Ok (of_nat n)"
proof -
  assume n: "n \<le> u64_max"
  obtain c cs where s: "show_nat n = c # cs"
    using show_nat_nonempty by (cases "show_nat n") auto
  then have "c \<in> set (show_nat n)" by simp
  from set_show_nat [OF this] obtain d where "d < 10" "c = digit_char d" by blast
  then have "c \<noteq> CHR ''+''" "c \<noteq> CHR ''-''" by (simp_all add: digit_char_not)
  then have "parse_u64 (c # cs) = parse_digits (c # cs) 0"
    by (simp add: parse_u64_def del: parse_digits.simps)
  then show ?thesis using parse_digits_show_nat [OF n] by (simp only: s)
qed

lemma show_nat_inj: "m \<le> u64_max \<Longrightarrow> n \<le> u64_max \<Longrightarrow> show_nat m = show_nat n \<longleftrightarrow> m = n"
proof
  assume "m \<le> u64_max" "n \<le> u64_max" and eq: "show_nat m = show_nat n"
  then have "(of_nat m :: u64) = of_nat n"
    by (metis parse_u64_show_nat sum.inject(2))
  then have "unat (of_nat m :: u64) = unat (of_nat n :: u64)" by simp
  with \<open>m \<le> u64_max\<close> \<open>n \<le> u64_max\<close> show "m = n"
    by (simp add: unat_of_nat)
qed simp

text \<open>Trimming leaves a text alone that neither starts nor ends with a byte of white space.\<close>

lemma strip_leading_id:
  assumes "\<And>w. w \<in> set ws \<Longrightarrow> w \<noteq> [] \<Longrightarrow> s \<noteq> [] \<Longrightarrow> hd w \<noteq> hd s"
  shows "strip_leading ws s = s"
proof -
  have "find (\<lambda>w. w \<noteq> [] \<and> length w \<le> length s \<and> take (length w) s = w) ws = None"
    unfolding find_None_iff
  proof
    assume "\<exists>w. w \<in> set ws \<and> w \<noteq> [] \<and> length w \<le> length s \<and> take (length w) s = w"
    then obtain w where w: "w \<in> set ws" "w \<noteq> []" "length w \<le> length s" "take (length w) s = w"
      by blast
    then have "hd w = hd s" "s \<noteq> []" by (metis hd_take length_greater_0_conv, auto)
    with assms w show False by blast
  qed
  then show ?thesis by (subst strip_leading.simps) simp
qed

definition white_space_bytes :: "char list" where
  "white_space_bytes = concat white_space"

lemma hd_white_space: "w \<in> set white_space \<Longrightarrow> hd w \<in> set white_space_bytes"
  by (auto simp: white_space_def white_space_bytes_def)

lemma last_white_space: "w \<in> set (map rev white_space) \<Longrightarrow> hd w \<in> set white_space_bytes"
  by (auto simp: white_space_def white_space_bytes_def)

lemma trim_start_id: "s = [] \<or> hd s \<notin> set white_space_bytes \<Longrightarrow> trim_start s = s"
  unfolding trim_start_def using hd_white_space by (intro strip_leading_id) metis

lemma trim_end_id: "s = [] \<or> last s \<notin> set white_space_bytes \<Longrightarrow> trim_end s = s"
proof -
  assume s: "s = [] \<or> last s \<notin> set white_space_bytes"
  have "strip_leading (map rev white_space) (rev s) = rev s"
    using s last_white_space by (intro strip_leading_id) (metis hd_rev rev_is_Nil_conv)
  then show ?thesis by (simp add: trim_end_def)
qed

lemma trim_end_newline: "trim_end (s @ ''\<newline>'') = trim_end s"
proof -
  have "strip_leading (map rev white_space) (CHR 0x0A # rev s) = strip_leading (map rev white_space) (rev s)"
    by (subst strip_leading.simps) (simp add: white_space_def)
  then show ?thesis by (simp add: trim_end_def)
qed

lemma digit_not_white_space: "d < 10 \<Longrightarrow> digit_char d \<notin> set white_space_bytes"
proof
  assume d: "d < 10" and "digit_char d \<in> set white_space_bytes"
  then have "(of_char (digit_char d) :: nat) \<in> of_char ` set white_space_bytes" by blast
  then show False using d by (auto simp: white_space_bytes_def white_space_def digit_char_def)
qed

text \<open>The text of a sysfs counter file: the number in decimal and a newline.\<close>

lemma parse_sysfs_counter:
  assumes "n \<le> u64_max"
  shows "parse_u64 (trim (show_nat n @ ''\<newline>'')) = Ok (of_nat n)"
proof -
  have b: "c \<notin> set white_space_bytes" if "c \<in> set (show_nat n)" for c
    using that set_show_nat digit_not_white_space by blast
  have "hd (show_nat n @ ''\<newline>'') \<in> set (show_nat n)" by simp
  then have "trim_start (show_nat n @ ''\<newline>'') = show_nat n @ ''\<newline>''"
    using b by (intro trim_start_id) blast
  moreover have "trim_end (show_nat n) = show_nat n"
    using b by (intro trim_end_id) simp
  ultimately have "trim (show_nat n @ ''\<newline>'') = show_nat n"
    by (simp only: trim_def trim_end_newline)
  then show ?thesis using assms by (simp add: parse_u64_show_nat)
qed

end
