(* ===== verification/Linux_Provider.thy ===== *)
theory Linux_Provider
  imports Provider Host
begin

text \<open>
  The Linux provider, \<open>src/providers/linux.rs\<close>: the table of in-flight fences per
  submitting process (a \<open>BTreeMap\<close> with saturating counts), the correlation of a
  signalled fence with the power drawn during it, the RAPL counter read from sysfs and
  differenced modulo its wrap point, and the provider's trait methods.  Everything a
  sample reads comes from the host record.

  The fence table is shown to implement a counter of outstanding fences, the RAPL
  difference to be the counter's distance modulo its range, and the sampling loop over
  this provider to bill at most the energy the RAPL counter recorded.
\<close>

section \<open>Data\<close>

record DmaFenceEvent =
  fence_submitter_pid :: u32
  fence_submitted_at_ns :: u64
  fence_signaled_at_ns :: u64
  fence_gpu_power_uw :: u64

record RaplState =
  rapl_energy_uj :: u64
  rapl_observed_at_ns :: u64
  rapl_max_energy_uj :: u64

record LinuxProvider =
  lp_hardware_signature :: string
  lp_pending :: "PidEnergyAttribution list"
  lp_active_pids :: "(u32 \<times> u32) list"
  lp_rapl_state :: "RaplState option"

definition DMA_FENCE_TRACEPOINT :: string where
  "DMA_FENCE_TRACEPOINT = ''dma_fence:dma_fence_signaled''"

definition SCHED_SWITCH_TRACEPOINT :: string where
  "SCHED_SWITCH_TRACEPOINT = ''sched:sched_switch''"

definition DEFAULT_RAPL_ENERGY_PATH :: string where
  "DEFAULT_RAPL_ENERGY_PATH = ''/sys/class/powercap/intel-rapl:0/energy_uj''"

definition DEFAULT_RAPL_MAX_RANGE_PATH :: string where
  "DEFAULT_RAPL_MAX_RANGE_PATH = ''/sys/class/powercap/intel-rapl:0/max_energy_range_uj''"

section \<open>Operations\<close>

definition linux_new :: "string \<Rightarrow> LinuxProvider" where
  "linux_new sig =
     \<lparr>lp_hardware_signature = sig, lp_pending = [], lp_active_pids = bt_new, lp_rapl_state = None\<rparr>"

definition linux_enqueue_attribution :: "LinuxProvider \<Rightarrow> PidEnergyAttribution \<Rightarrow> LinuxProvider" where
  "linux_enqueue_attribution p a = p\<lparr>lp_pending := lp_pending p @ [a]\<rparr>"

definition linux_pending :: "LinuxProvider \<Rightarrow> PidEnergyAttribution list" where
  "linux_pending p = lp_pending p"

definition mark_pid_active :: "LinuxProvider \<Rightarrow> u32 \<Rightarrow> LinuxProvider" where
  "mark_pid_active p pid =
     (let entry = unwrap_or 0 (bt_get (lp_active_pids p) pid)
      in p\<lparr>lp_active_pids := bt_insert (lp_active_pids p) pid (sat_add entry 1)\<rparr>)"

definition mark_pid_idle :: "LinuxProvider \<Rightarrow> u32 \<Rightarrow> LinuxProvider" where
  "mark_pid_idle p pid = p\<lparr>lp_active_pids := bt_remove (lp_active_pids p) pid\<rparr>"

definition active_pid_set :: "LinuxProvider \<Rightarrow> u32 list" where
  "active_pid_set p = bt_keys (lp_active_pids p)"

definition release_fence :: "(u32 \<times> u32) list \<Rightarrow> u32 \<Rightarrow> (u32 \<times> u32) list" where
  "release_fence m pid =
     (case bt_get m pid of
        None \<Rightarrow> m
      | Some cnt \<Rightarrow>
          let cnt' = sat_sub cnt 1 in
          if cnt' = 0 then bt_remove (bt_insert m pid cnt') pid else bt_insert m pid cnt')"

definition correlate_fence :: "LinuxProvider \<Rightarrow> DmaFenceEvent \<Rightarrow> LinuxProvider \<times> PidEnergyAttribution" where
  "correlate_fence p event =
     (let window_ns = sat_sub (fence_signaled_at_ns event) (fence_submitted_at_ns event);
          attribution =
            \<lparr>attr_pid = fence_submitter_pid event,
             attr_window_start_ns = fence_submitted_at_ns event,
             attr_window_end_ns = fence_signaled_at_ns event,
             attr_burst_power_uw = fence_gpu_power_uw event,
             attr_attributed_energy_uj = window_energy_uj (fence_gpu_power_uw event) window_ns,
             attr_hardware_signature = lp_hardware_signature p\<rparr>
      in (p\<lparr>lp_active_pids := release_fence (lp_active_pids p) (fence_submitter_pid event),
            lp_pending := lp_pending p @ [attribution]\<rparr>,
          attribution))"

text \<open>The modular difference of two counter readings.\<close>

definition rapl_delta_uj :: "RaplState \<Rightarrow> u64 \<Rightarrow> u64 \<Rightarrow> u64" where
  "rapl_delta_uj prev energy_uj max_energy_uj =
     (if energy_uj \<ge> rapl_energy_uj prev then energy_uj - rapl_energy_uj prev
      else if max_energy_uj = U64_MAX then 0
      else let to_wrap = sat_sub max_energy_uj (rapl_energy_uj prev)
           in sat_add (sat_add to_wrap energy_uj) 1)"

definition read_max_energy_uj :: "host \<Rightarrow> LinuxProvider \<Rightarrow> u64" where
  "read_max_energy_uj h p =
     (case lp_rapl_state p of
        Some prev \<Rightarrow> rapl_max_energy_uj prev
      | None \<Rightarrow>
          unwrap_or U64_MAX
            (Option.bind (result_ok (host_read_to_string h DEFAULT_RAPL_MAX_RANGE_PATH))
               (\<lambda>s. result_ok (parse_u64 (trim s)))))"

definition read_rapl_power_uw :: "host \<Rightarrow> LinuxProvider \<Rightarrow> LinuxProvider \<times> (u64 \<times> u64) result" where
  "read_rapl_power_uw h p =
     (case host_read_to_string h DEFAULT_RAPL_ENERGY_PATH of
        Inl err \<Rightarrow> (p, Err err)
      | Inr raw \<Rightarrow>
          (case parse_u64 (trim raw) of
             Inl err \<Rightarrow> (p, Err err)
           | Inr energy_uj \<Rightarrow>
               let observed_at_ns = now_ns_or 0 h;
                   max_energy_uj = read_max_energy_uj h p;
                   power_uw =
                     (case lp_rapl_state p of
                        Some prev \<Rightarrow>
                          let delta_uj = rapl_delta_uj prev energy_uj max_energy_uj;
                              dt_ns = sat_sub observed_at_ns (rapl_observed_at_ns prev)
                          in power_over_gap_uw delta_uj dt_ns
                      | None \<Rightarrow> 0)
               in (p\<lparr>lp_rapl_state := Some \<lparr>rapl_energy_uj = energy_uj,
                     rapl_observed_at_ns = observed_at_ns, rapl_max_energy_uj = max_energy_uj\<rparr>\<rparr>,
                   Ok (power_uw, observed_at_ns))))"

definition linux_sample_power_state :: "host \<Rightarrow> LinuxProvider \<Rightarrow> LinuxProvider \<times> PowerSnapshot result" where
  "linux_sample_power_state h p =
     (case read_rapl_power_uw h p of
        (p', Inl err) \<Rightarrow>
          (p', Err (''linux RAPL power sampling failed for hardware '' @ lp_hardware_signature p'
                    @ '': '' @ err))
      | (p', Inr (power_uw, observed_at_ns)) \<Rightarrow>
          (p', Ok \<lparr>snap_observed_at_ns = observed_at_ns, snap_idle_power_uw = 0,
                   snap_active_power_uw = power_uw, snap_cpu_power_uw = power_uw,
                   snap_gpu_power_uw = 0, snap_accelerator_power_uw = 0,
                   snap_hardware_signature = lp_hardware_signature p'\<rparr>))"

definition linux_attribute_joules_to_pid ::
  "LinuxProvider \<Rightarrow> u32 \<Rightarrow> u64 \<Rightarrow> u64 \<Rightarrow> PowerSnapshot \<Rightarrow> LinuxProvider \<times> PidEnergyAttribution result" where
  "linux_attribute_joules_to_pid p pid window_start_ns window_end_ns snap =
     (p, Ok (baseline_burst pid window_start_ns window_end_ns snap))"

definition linux_sync_registry ::
  "'t skip_map_ops \<Rightarrow> LinuxProvider \<Rightarrow> 't AmalgafyRegistry
     \<Rightarrow> LinuxProvider \<times> 't AmalgafyRegistry \<times> u64 result" where
  "linux_sync_registry sm p r =
     (case drain_pending sm (lp_pending p) r 0 of
        (r', total_uj) \<Rightarrow> (p\<lparr>lp_pending := []\<rparr>, r', Ok total_uj))"

definition linux_ops :: "'t skip_map_ops \<Rightarrow> (LinuxProvider, host, 't) provider_ops" where
  "linux_ops sm =
     \<lparr>trait_sample_power_state = linux_sample_power_state,
      trait_attribute_joules_to_pid = linux_attribute_joules_to_pid,
      trait_sync_registry = linux_sync_registry sm,
      trait_hardware_signature = lp_hardware_signature,
      trait_active_pids = active_pid_set\<rparr>"

interpretation lin: pending_provider sm linux_pending linux_enqueue_attribution "linux_sync_registry sm"
  for sm
  by unfold_locales
     (simp_all add: linux_pending_def linux_enqueue_attribution_def linux_sync_registry_def split_beta)

section \<open>The fence table as a counter of outstanding fences\<close>

text \<open>What happens to a provider between two samples, and the abstract counter it refines.\<close>

datatype fence_op =
    FenceInit u32
  | FenceSignaled DmaFenceEvent
  | ProcessExit u32

fun linux_apply :: "LinuxProvider \<Rightarrow> fence_op \<Rightarrow> LinuxProvider" where
  "linux_apply p (FenceInit pid) = mark_pid_active p pid"
| "linux_apply p (FenceSignaled e) = fst (correlate_fence p e)"
| "linux_apply p (ProcessExit pid) = mark_pid_idle p pid"

fun spec_apply :: "(u32 \<Rightarrow> nat) \<Rightarrow> fence_op \<Rightarrow> (u32 \<Rightarrow> nat)" where
  "spec_apply c (FenceInit pid) = c(pid := min (c pid + 1) 4294967295)"
| "spec_apply c (FenceSignaled e) = c(fence_submitter_pid e := c (fence_submitter_pid e) - 1)"
| "spec_apply c (ProcessExit pid) = c(pid := 0)"

definition outstanding :: "LinuxProvider \<Rightarrow> u32 \<Rightarrow> nat" where
  "outstanding p pid = unat (unwrap_or 0 (bt_get (lp_active_pids p) pid))"

definition linux_inv :: "LinuxProvider \<Rightarrow> bool" where
  "linux_inv p \<longleftrightarrow>
     bt_inv (lp_active_pids p) \<and> (\<forall>pid. bt_get (lp_active_pids p) pid \<noteq> Some 0)"

lemma linux_inv_new: "linux_inv (linux_new sig)"
  by (simp add: linux_inv_def linux_new_def)

lemma sat_add_one_nonzero: "sat_add c 1 \<noteq> (0 :: u32)"
proof
  assume "sat_add c 1 = 0"
  then have "unat (sat_add c 1) = unat (0 :: u32)" by simp
  then show False by (simp add: u64_nat)
qed

lemma bt_get_release_fence:
  assumes "bt_inv m"
  shows "bt_get (release_fence m pid) =
    (if unwrap_or 0 (bt_get m pid) \<le> 1 then (bt_get m)(pid := None)
     else (bt_get m)(pid \<mapsto> unwrap_or 0 (bt_get m pid) - 1))"
proof (cases "bt_get m pid")
  case None
  then show ?thesis by (auto simp: release_fence_def)
next
  case (Some c)
  have "sat_sub c 1 = 0 \<longleftrightarrow> c \<le> 1"
    by (simp add: word_le_nat_alt u64_nat flip: unat_eq_zero)
  moreover have "sat_sub c 1 = c - 1" if "\<not> c \<le> 1"
    using that by (simp add: sat_sub_def linorder_not_le order_less_imp_le)
  ultimately show ?thesis
    using assms Some by (auto simp: release_fence_def Let_def bt.get_put bt.get_del bt.inv_put)
qed

lemma bt_inv_release_fence: "bt_inv m \<Longrightarrow> bt_inv (release_fence m pid)"
  by (simp add: release_fence_def Let_def bt.inv_put bt.inv_del split: option.split)

lemma linux_inv_apply: "linux_inv p \<Longrightarrow> linux_inv (linux_apply p op)"
proof (cases op)
  case (FenceInit pid)
  moreover assume "linux_inv p"
  ultimately show ?thesis
    by (auto simp: linux_inv_def mark_pid_active_def Let_def bt.inv_put bt.get_put sat_add_one_nonzero)
next
  case (FenceSignaled e)
  moreover assume "linux_inv p"
  ultimately show ?thesis
    by (auto simp: linux_inv_def correlate_fence_def Let_def bt_inv_release_fence bt_get_release_fence
        split: if_splits)
next
  case (ProcessExit pid)
  moreover assume "linux_inv p"
  ultimately show ?thesis
    by (auto simp: linux_inv_def mark_pid_idle_def bt.inv_del bt.get_del)
qed

lemma outstanding_apply: "linux_inv p \<Longrightarrow> outstanding (linux_apply p op) = spec_apply (outstanding p) op"
proof (cases op)
  case (FenceInit pid)
  moreover assume "linux_inv p"
  ultimately show ?thesis
    by (auto simp: linux_inv_def outstanding_def mark_pid_active_def Let_def bt.get_put u64_nat)
next
  case (FenceSignaled e)
  moreover assume "linux_inv p"
  ultimately show ?thesis
    by (auto simp: linux_inv_def outstanding_def correlate_fence_def Let_def bt_get_release_fence
        word_le_nat_alt unat_sub fun_eq_iff)
next
  case (ProcessExit pid)
  moreover assume "linux_inv p"
  ultimately show ?thesis
    by (auto simp: linux_inv_def outstanding_def mark_pid_idle_def bt.get_del)
qed

lemma outstanding_run:
  "linux_inv p \<Longrightarrow>
   linux_inv (foldl linux_apply p ops) \<and> outstanding (foldl linux_apply p ops) = foldl spec_apply (outstanding p) ops"
  by (induction ops arbitrary: p) (simp_all add: linux_inv_apply outstanding_apply)

lemma active_pid_set_sorted: "linux_inv p \<Longrightarrow> sorted_wrt (<) (active_pid_set p)"
  using bt.entries_sorted by (auto simp: linux_inv_def active_pid_set_def bt_keys_def)

lemma set_active_pid_set: "linux_inv p \<Longrightarrow> set (active_pid_set p) = {pid. outstanding p pid > 0}"
proof -
  assume inv: "linux_inv p"
  then have "pid \<in> set (active_pid_set p) \<longleftrightarrow> bt_get (lp_active_pids p) pid \<noteq> None" for pid
    unfolding active_pid_set_def bt_keys_def by (intro bt.in_keys_iff) (simp add: linux_inv_def)
  moreover have "bt_get (lp_active_pids p) pid \<noteq> None \<longleftrightarrow> outstanding p pid > 0" for pid
    using inv by (cases "bt_get (lp_active_pids p) pid")
      (auto simp: linux_inv_def outstanding_def unat_gt_0)
  ultimately show ?thesis by auto
qed

section \<open>The RAPL counter\<close>

text \<open>The modular distance from one counter value to the next.\<close>

definition counter_distance :: "nat \<Rightarrow> nat \<Rightarrow> nat \<Rightarrow> nat" where
  "counter_distance range_max prev cur = (cur + (range_max + 1) - prev) mod (range_max + 1)"

lemma counter_distance_cases:
  assumes "prev \<le> range_max" and "cur \<le> range_max"
  shows "counter_distance range_max prev cur = (if prev \<le> cur then cur - prev else cur + (range_max + 1) - prev)"
proof (cases "prev \<le> cur")
  case True
  then have "cur + (range_max + 1) - prev = (cur - prev) + (range_max + 1)" by simp
  then have "counter_distance range_max prev cur = (cur - prev) mod (range_max + 1)"
    unfolding counter_distance_def by (metis mod_add_self2)
  with True assms show ?thesis by simp
next
  case False
  then have "cur + (range_max + 1) - prev < range_max + 1" using assms by linarith
  with False show ?thesis by (simp add: counter_distance_def)
qed

lemma unat_rapl_delta_uj:
  assumes "rapl_energy_uj prev \<le> range_max" and "cur \<le> range_max" and "range_max \<noteq> U64_MAX"
  shows "unat (rapl_delta_uj prev cur range_max) = counter_distance (unat range_max) (unat (rapl_energy_uj prev)) (unat cur)"
proof -
  let ?e = "rapl_energy_uj prev"
  have le: "unat ?e \<le> unat range_max" "unat cur \<le> unat range_max"
    using assms(1,2) by (simp_all add: word_le_nat_alt)
  show ?thesis
  proof (cases "?e \<le> cur")
    case True
    then show ?thesis
      by (simp add: rapl_delta_uj_def unat_sub counter_distance_cases [OF le] word_le_nat_alt)
  next
    case False
    then have lt: "unat cur < unat ?e" by (simp add: word_le_nat_alt)
    have "unat range_max - unat ?e + unat cur + 1 \<le> unat range_max" using le lt by linarith
    then have "unat range_max - unat ?e + unat cur + 1 \<le> u64_max"
      using unat_u64_le by (rule order_trans)
    then show ?thesis
      using False assms(3) lt le
      by (simp add: rapl_delta_uj_def Let_def u64_nat counter_distance_cases [OF le])
  qed
qed

text \<open>A host whose sysfs files report a counter value and its range.\<close>

definition rapl_reads :: "host \<Rightarrow> u64 \<Rightarrow> u64 \<Rightarrow> bool" where
  "rapl_reads h energy range_max \<longleftrightarrow>
     host_read_to_string h DEFAULT_RAPL_ENERGY_PATH = Ok (show_nat (unat energy) @ ''\<newline>'')
     \<and> host_read_to_string h DEFAULT_RAPL_MAX_RANGE_PATH = Ok (show_nat (unat range_max) @ ''\<newline>'')"

lemma parse_counter_file [simp]: "parse_u64 (trim (show_nat (unat x) @ ''\<newline>'')) = Ok x" for x :: u64
  using parse_sysfs_counter [of "unat x"] by simp

definition rapl_sample :: "host \<Rightarrow> LinuxProvider \<Rightarrow> u64 \<Rightarrow> u64 \<Rightarrow> u64" where
  "rapl_sample h p energy range_max =
     (case lp_rapl_state p of
        None \<Rightarrow> 0
      | Some prev \<Rightarrow> power_over_gap_uw (rapl_delta_uj prev energy range_max)
                       (sat_sub (now_ns_or 0 h) (rapl_observed_at_ns prev)))"

lemma linux_sample_ok:
  assumes "rapl_reads h energy range_max"
    and "\<And>prev. lp_rapl_state p = Some prev \<Longrightarrow> rapl_max_energy_uj prev = range_max"
  shows "linux_sample_power_state h p =
    (p\<lparr>lp_rapl_state := Some \<lparr>rapl_energy_uj = energy, rapl_observed_at_ns = now_ns_or 0 h,
         rapl_max_energy_uj = range_max\<rparr>\<rparr>,
     Ok \<lparr>snap_observed_at_ns = now_ns_or 0 h, snap_idle_power_uw = 0,
         snap_active_power_uw = rapl_sample h p energy range_max,
         snap_cpu_power_uw = rapl_sample h p energy range_max,
         snap_gpu_power_uw = 0, snap_accelerator_power_uw = 0,
         snap_hardware_signature = lp_hardware_signature p\<rparr>)"
  using assms
  by (cases "lp_rapl_state p")
     (simp_all add: linux_sample_power_state_def read_rapl_power_uw_def read_max_energy_uj_def
        rapl_reads_def rapl_sample_def Let_def)

text \<open>
  What a successful sample establishes for the next tick: the loop's previous snapshot
  and the provider's previous counter reading were taken at the same time.
\<close>

definition rapl_synced :: "(LinuxProvider, 't) sampling_state \<Rightarrow> u64 \<Rightarrow> u64 \<Rightarrow> u64 \<Rightarrow> bool" where
  "rapl_synced s energy observed range_max \<longleftrightarrow>
     lp_rapl_state (sl_provider s) =
       Some \<lparr>rapl_energy_uj = energy, rapl_observed_at_ns = observed, rapl_max_energy_uj = range_max\<rparr>
     \<and> (\<exists>prev. previous_snapshot s = Some prev \<and> snap_observed_at_ns prev = observed)"

lemma linux_ops_simps [simp]:
  "trait_sample_power_state (linux_ops sm) = linux_sample_power_state"
  "trait_hardware_signature (linux_ops sm) = lp_hardware_signature"
  "trait_active_pids (linux_ops sm) = active_pid_set"
  by (simp_all add: linux_ops_def)

lemma baseline_burst_power_uw_idle_zero [simp]: "baseline_burst_power_uw p 0 = p"
  by (rule word_eqI_unat) (simp add: u64_nat)

lemma linux_tick:
  assumes "rapl_synced s energy observed range_max" and "rapl_reads h energy' range_max"
  defines "dt \<equiv> sat_sub (now_ns_or 0 h) observed"
  defines "delta \<equiv> rapl_delta_uj \<lparr>rapl_energy_uj = energy, rapl_observed_at_ns = observed,
    rapl_max_energy_uj = range_max\<rparr> energy' range_max"
  shows "rapl_synced (fst (sampling_tick sm (linux_ops sm) h s)) energy' (now_ns_or 0 h) range_max"
    and "heartbeat_uj (snd (sampling_tick sm (linux_ops sm) h s))
           = unat (window_energy_uj (power_over_gap_uw delta dt) dt)"
proof -
  obtain prev where
    st: "lp_rapl_state (sl_provider s) = Some \<lparr>rapl_energy_uj = energy, rapl_observed_at_ns = observed,
      rapl_max_energy_uj = range_max\<rparr>" and
    prev: "previous_snapshot s = Some prev" "snap_observed_at_ns prev = observed"
    using assms(1) by (auto simp: rapl_synced_def)
  have "linux_sample_power_state h (sl_provider s) =
    ((sl_provider s)\<lparr>lp_rapl_state := Some \<lparr>rapl_energy_uj = energy', rapl_observed_at_ns = now_ns_or 0 h,
         rapl_max_energy_uj = range_max\<rparr>\<rparr>,
     Ok \<lparr>snap_observed_at_ns = now_ns_or 0 h, snap_idle_power_uw = 0,
         snap_active_power_uw = power_over_gap_uw delta dt,
         snap_cpu_power_uw = power_over_gap_uw delta dt,
         snap_gpu_power_uw = 0, snap_accelerator_power_uw = 0,
         snap_hardware_signature = lp_hardware_signature (sl_provider s)\<rparr>)"
    using linux_sample_ok [OF assms(2), of "sl_provider s"]
    by (simp add: st rapl_sample_def delta_def dt_def)
  then show "rapl_synced (fst (sampling_tick sm (linux_ops sm) h s)) energy' (now_ns_or 0 h) range_max"
    and "heartbeat_uj (snd (sampling_tick sm (linux_ops sm) h s))
           = unat (window_energy_uj (power_over_gap_uw delta dt) dt)"
    by (simp_all add: sampling_tick_def prev Let_def rapl_synced_def flip: dt_def)
qed

text \<open>The energy a counter records over a sequence of readings, across its wraps.\<close>

fun rapl_recorded :: "u64 \<Rightarrow> u64 \<Rightarrow> u64 list \<Rightarrow> nat" where
  "rapl_recorded range_max e [] = 0"
| "rapl_recorded range_max e (e' # es) =
     counter_distance (unat range_max) (unat e) (unat e') + rapl_recorded range_max e' es"

text \<open>A host whose counter cannot be read.\<close>

definition rapl_unreadable :: "host \<Rightarrow> bool" where
  "rapl_unreadable h \<longleftrightarrow>
     (case host_read_to_string h DEFAULT_RAPL_ENERGY_PATH of
        Inl _ \<Rightarrow> True
      | Inr raw \<Rightarrow> \<not> is_ok (parse_u64 (trim raw)))"

text \<open>A tick that reads the counter, or fails to.\<close>

fun rapl_tick :: "u64 \<Rightarrow> host \<times> u64 option \<Rightarrow> bool" where
  "rapl_tick range_max (h, Some e) \<longleftrightarrow> rapl_reads h e range_max \<and> e \<le> range_max"
| "rapl_tick range_max (h, None) \<longleftrightarrow> rapl_unreadable h"

abbreviation readings :: "(host \<times> u64 option) list \<Rightarrow> u64 list" where
  "readings ticks \<equiv> List.map_filter snd ticks"

text \<open>What the counter recorded from the last known reading, if there is one, or else from the first.\<close>

fun recorded_from :: "u64 \<Rightarrow> u64 option \<Rightarrow> u64 list \<Rightarrow> nat" where
  "recorded_from range_max (Some e) es = rapl_recorded range_max e es"
| "recorded_from range_max None [] = 0"
| "recorded_from range_max None (e # es) = rapl_recorded range_max e es"

definition last_reading :: "LinuxProvider \<Rightarrow> u64 option" where
  "last_reading p = map_option rapl_energy_uj (lp_rapl_state p)"

definition rapl_known :: "u64 \<Rightarrow> (LinuxProvider, 't) sampling_state \<Rightarrow> bool" where
  "rapl_known range_max s \<longleftrightarrow>
     (\<forall>st. lp_rapl_state (sl_provider s) = Some st \<longrightarrow> rapl_max_energy_uj st = range_max \<and> rapl_energy_uj st \<le> range_max)
     \<and> (\<forall>prev. previous_snapshot s = Some prev \<longrightarrow>
          (\<exists>energy. rapl_synced s energy (snap_observed_at_ns prev) range_max))"

lemma linux_tick_unreadable:
  assumes "rapl_unreadable h" and "sampling_tick sm (linux_ops sm) h s = (s1, hb)"
  shows "sl_provider s1 = sl_provider s" "previous_snapshot s1 = None" "heartbeat_uj hb = 0"
proof -
  have "\<exists>err. linux_sample_power_state h (sl_provider s) = (sl_provider s, Err err)"
    using assms(1)
    by (auto simp: rapl_unreadable_def linux_sample_power_state_def read_rapl_power_uw_def is_ok_def
        split: sum.splits)
  then show "sl_provider s1 = sl_provider s" "previous_snapshot s1 = None" "heartbeat_uj hb = 0"
    using assms(2) by (auto simp: sampling_tick_def)
qed

text \<open>One reading: the tick bills at most what the counter recorded since the last reading.\<close>

lemma linux_tick_reading:
  assumes "range_max \<noteq> U64_MAX" and "rapl_known range_max s" and "rapl_reads h e range_max" and "e \<le> range_max"
    and "sampling_tick sm (linux_ops sm) h s = (s1, hb)"
  shows "rapl_known range_max s1" "last_reading (sl_provider s1) = Some e"
    and "heartbeat_uj hb + rapl_recorded range_max e es \<le> recorded_from range_max (last_reading (sl_provider s)) (e # es)"
proof -
  have known: "\<And>st. lp_rapl_state (sl_provider s) = Some st \<Longrightarrow> rapl_max_energy_uj st = range_max"
    using assms(2) by (simp add: rapl_known_def)
  note ok = linux_sample_ok [OF assms(3), of "sl_provider s", OF known]
  have s1: "lp_rapl_state (sl_provider s1) = Some \<lparr>rapl_energy_uj = e, rapl_observed_at_ns = now_ns_or 0 h,
      rapl_max_energy_uj = range_max\<rparr>" "\<exists>snap. previous_snapshot s1 = Some snap \<and> snap_observed_at_ns snap = now_ns_or 0 h"
    using assms(5) ok by (auto simp: sampling_tick_def Let_def split: option.splits)
  show "rapl_known range_max s1" "last_reading (sl_provider s1) = Some e"
    using s1 assms(4) by (auto simp: rapl_known_def rapl_synced_def last_reading_def)
  show "heartbeat_uj hb + rapl_recorded range_max e es \<le> recorded_from range_max (last_reading (sl_provider s)) (e # es)"
  proof (cases "previous_snapshot s")
    case None
    then have "heartbeat_uj hb = 0" using assms(5) ok by (auto simp: sampling_tick_def)
    then show ?thesis by (cases "last_reading (sl_provider s)") simp_all
  next
    case (Some prev)
    then obtain e0 where sync: "rapl_synced s e0 (snap_observed_at_ns prev) range_max"
      using assms(2) by (auto simp: rapl_known_def)
    then have e0: "last_reading (sl_provider s) = Some e0" "e0 \<le> range_max"
      using assms(2) by (auto simp: rapl_known_def rapl_synced_def last_reading_def)
    let ?st = "\<lparr>rapl_energy_uj = e0, rapl_observed_at_ns = snap_observed_at_ns prev, rapl_max_energy_uj = range_max\<rparr>"
    have "heartbeat_uj hb \<le> unat (rapl_delta_uj ?st e range_max)"
      using linux_tick(2) [OF sync assms(3), of sm] window_energy_power_over_gap_le by (simp add: assms(5))
    also have "\<dots> = counter_distance (unat range_max) (unat e0) (unat e)"
      using unat_rapl_delta_uj [of ?st range_max e] e0(2) assms(1,4) by simp
    finally show ?thesis by (simp add: e0)
  qed
qed

lemma linux_run_bounded_general:
  assumes "range_max \<noteq> U64_MAX"
  shows "rapl_known range_max s \<Longrightarrow> list_all (rapl_tick range_max) ticks \<Longrightarrow>
    sum_list (map heartbeat_uj (snd (sampling_run sm (linux_ops sm) (map fst ticks) s)))
      \<le> recorded_from range_max (last_reading (sl_provider s)) (readings ticks)"
proof (induction ticks arbitrary: s)
  case (Cons t ticks)
  obtain h o_e where t: "t = (h, o_e)" by (cases t)
  obtain s1 hb where tick: "sampling_tick sm (linux_ops sm) h s = (s1, hb)" by fastforce
  obtain s2 hs where run: "sampling_run sm (linux_ops sm) (map fst ticks) s1 = (s2, hs)" by fastforce
  show ?case
  proof (cases o_e)
    case None
    have "rapl_unreadable h" using Cons.prems(2) by (simp add: t None)
    note U = linux_tick_unreadable [OF this tick]
    have "rapl_known range_max s1" using Cons.prems(1) U by (simp add: rapl_known_def)
    then show ?thesis
      using Cons.IH [of s1] Cons.prems(2) U by (simp add: t None tick run List.map_filter_simps)
  next
    case (Some e)
    have "rapl_reads h e range_max" "e \<le> range_max" using Cons.prems(2) by (simp_all add: t Some)
    note R = linux_tick_reading [OF assms Cons.prems(1) this tick]
    have "sum_list (map heartbeat_uj hs) \<le> rapl_recorded range_max e (readings ticks)"
      using Cons.IH [OF R(1)] Cons.prems(2) R(2) by (simp add: run)
    then show ?thesis
      using R(3) [of "readings ticks"] by (simp add: t Some tick run List.map_filter_simps)
  qed
qed (simp add: List.map_filter_simps)

lemma linux_pending_correlate_all:
  "lp_pending (foldl (\<lambda>p e. fst (correlate_fence p e)) p events) = lp_pending p @
     map (\<lambda>e. snd (correlate_fence p e)) events"
proof (induction events arbitrary: p)
  case (Cons e events)
  have "snd (correlate_fence (fst (correlate_fence p e)) e') = snd (correlate_fence p e')" for e'
    by (simp add: correlate_fence_def Let_def)
  with Cons show ?case by (simp add: correlate_fence_def Let_def)
qed simp

text \<open>A host with a given counter, range and clock, for the witnesses.\<close>

definition sysfs_host :: "u64 \<Rightarrow> u64 \<Rightarrow> u128 \<Rightarrow> host" where
  "sysfs_host energy range_max now =
     \<lparr>host_env_var = (\<lambda>_. Err ''environment variable not found''),
      host_read_to_string = (\<lambda>path.
        if path = DEFAULT_RAPL_ENERGY_PATH then Ok (show_nat (unat energy) @ ''\<newline>'')
        else if path = DEFAULT_RAPL_MAX_RANGE_PATH then Ok (show_nat (unat range_max) @ ''\<newline>'')
        else Err ''No such file or directory (os error 2)''),
      host_read_dir = (\<lambda>_. Err ''No such file or directory (os error 2)''),
      host_process_id = 1, host_now = Some now\<rparr>"

lemma rapl_reads_sysfs_host [simp]: "rapl_reads (sysfs_host energy range_max now) energy range_max"
  by (simp add: rapl_reads_def sysfs_host_def DEFAULT_RAPL_ENERGY_PATH_def DEFAULT_RAPL_MAX_RANGE_PATH_def)

definition bare_sysfs :: host where
  "bare_sysfs = (sysfs_host 0 0 0)
     \<lparr>host_read_to_string := (\<lambda>_. Err ''No such file or directory (os error 2)'')\<rparr>"

lemma rapl_unreadable_bare_sysfs [simp]: "rapl_unreadable bare_sysfs"
  by (simp add: rapl_unreadable_def bare_sysfs_def)

lemma now_ns_or_sysfs_host: "now_ns_or d (sysfs_host energy range_max now) = unwrap_or d (u64_try_from now)"
  by (simp add: now_ns_or_def sysfs_host_def)

section \<open>Properties\<close>

text \<open>
  C19.  The fence table implements a counter of outstanding fences.  After any sequence of
  fence submissions, signalled fences and process exits on a new provider, the number
  recorded for each process is that of the abstract counter, the table holds no zero
  count, and the active set is exactly the processes with an outstanding fence, in
  strictly ascending order: a signalled fence never makes a process with other
  outstanding fences idle.
\<close>

theorem fence_table_refines_counter:
  fixes ops :: "fence_op list" and sig :: string
  defines "p \<equiv> foldl linux_apply (linux_new sig) ops"
  defines "c \<equiv> foldl spec_apply (\<lambda>_. 0) ops"
  shows "linux_inv p \<and> outstanding p = c
    \<and> sorted_wrt (<) (active_pid_set p) \<and> set (active_pid_set p) = {pid. c pid > 0}"
proof -
  have "outstanding (linux_new sig) = (\<lambda>_. 0)"
    by (simp add: outstanding_def linux_new_def fun_eq_iff)
  then have "linux_inv p" and "outstanding p = c"
    using outstanding_run [OF linux_inv_new [of sig], of ops] by (simp_all add: p_def c_def)
  then show ?thesis using active_pid_set_sorted set_active_pid_set by auto
qed

text \<open>
  C25.  From fence to registry: correlating a sequence of signalled fences and then
  synchronising adds to every process exactly the energy of its own fence windows (GPU
  power times submit-to-signal time), returns the total, and empties the queue, so that
  a second synchronisation adds nothing.
\<close>

theorem fences_reach_registry:
  fixes events :: "DmaFenceEvent list" and sig :: string
  assumes "skip_map sm sm_inv" and "registry_inv sm sm_inv r"
  defines "p \<equiv> foldl (\<lambda>p e. fst (correlate_fence p e)) (linux_new sig) events"
  defines "adds \<equiv> map (\<lambda>e. (fence_submitter_pid e, window_energy_uj (fence_gpu_power_uw e)
      (sat_sub (fence_signaled_at_ns e) (fence_submitted_at_ns e)))) events"
  shows "uj_of (registry_get sm (fst (snd (linux_sync_registry sm p r))) pid)
           = min (uj_of (registry_get sm r pid) + sum_for pid adds) u64_max
    \<and> (\<exists>total_uj. snd (snd (linux_sync_registry sm p r)) = Ok total_uj
         \<and> unat total_uj = min (sum_deltas adds) u64_max)
    \<and> fst (snd (linux_sync_registry sm (fst (linux_sync_registry sm p r)) r')) = r'"
proof -
  have "map attr_add (linux_pending p) = adds"
    unfolding linux_pending_def p_def adds_def linux_pending_correlate_all
    by (simp add: linux_new_def correlate_fence_def Let_def)
  then show ?thesis
    using lin.sync_delivers [OF assms(1,2), of p] lin.sync_again(1) [of sm p r r'] by simp
qed

definition example_fence :: DmaFenceEvent where
  "example_fence = \<lparr>fence_submitter_pid = 4242, fence_submitted_at_ns = 1000000000,
     fence_signaled_at_ns = 1200000000, fence_gpu_power_uw = 250000000\<rparr>"

theorem fences_reach_registry_witness:
  "uj_of (registry_get btree_skip_map (fst (snd (linux_sync_registry btree_skip_map
      (foldl (\<lambda>p e. fst (correlate_fence p e)) (linux_new ''NV-H100'') [example_fence])
      (registry_new btree_skip_map)))) 4242) = 50000000"
  using fences_reach_registry [OF btree.skip_map_axioms btree.registry_inv_new,
      where events = "[example_fence]" and sig = "''NV-H100''" and pid = 4242]
  by (simp add: example_fence_def registry_get_def registry_new_def
      window_energy_uj_def NANOSECONDS_PER_SECOND_def sat_sub_def sat_add_def sat_mul_def Let_def)

text \<open>
  The RAPL difference is the distance of the counter modulo its range: exact both
  for a forward step and across a wrap, without 64-bit overflow.  With an unknown range
  a backward step counts as zero instead of a fabricated difference.
\<close>

theorem rapl_delta_is_modular_distance:
  assumes "rapl_energy_uj prev \<le> range_max" and "cur \<le> range_max" and "range_max \<noteq> U64_MAX"
  shows "unat (rapl_delta_uj prev cur range_max)
      = (unat cur + (unat range_max + 1) - unat (rapl_energy_uj prev)) mod (unat range_max + 1)
    \<and> (x < rapl_energy_uj prev \<longrightarrow> rapl_delta_uj prev x U64_MAX = 0)"
proof
  show "unat (rapl_delta_uj prev cur range_max)
      = (unat cur + (unat range_max + 1) - unat (rapl_energy_uj prev)) mod (unat range_max + 1)"
    using unat_rapl_delta_uj [OF assms] by (simp add: counter_distance_def)
  show "x < rapl_energy_uj prev \<longrightarrow> rapl_delta_uj prev x U64_MAX = 0"
    by (auto simp: rapl_delta_uj_def)
qed

theorem rapl_delta_is_modular_distance_witness:
  "unat (rapl_delta_uj \<lparr>rapl_energy_uj = 990, rapl_observed_at_ns = 0, rapl_max_energy_uj = 999\<rparr> 15 999) = 25"
  using rapl_delta_is_modular_distance
    [of "\<lparr>rapl_energy_uj = 990, rapl_observed_at_ns = 0, rapl_max_energy_uj = 999\<rparr>" 999 15]
  by simp

text \<open>
  C34.  A tick over the Linux provider bills the RAPL difference up to rounding: never
  more, and less by at most one micro-joule plus one per whole second of the gap, unless
  the power reading itself saturates.
\<close>

theorem linux_tick_bills_rapl_delta:
  fixes s :: "(LinuxProvider, 't) sampling_state" and sm :: "'t skip_map_ops"
  assumes "rapl_synced s energy observed range_max" and "rapl_reads h energy' range_max"
    and "energy \<le> range_max" and "energy' \<le> range_max" and "range_max \<noteq> U64_MAX"
  defines "dt \<equiv> unat (now_ns_or 0 h) - unat observed"
  defines "spent \<equiv> counter_distance (unat range_max) (unat energy) (unat energy')"
  defines "billed \<equiv> heartbeat_uj (snd (sampling_tick sm (linux_ops sm) h s))"
  shows "billed \<le> spent
    \<and> (0 < dt \<and> spent * 1000000000 div dt * (dt mod 1000000000 + 1) \<le> u64_max
         \<longrightarrow> spent \<le> billed + dt div 1000000000 + 1)"
proof -
  let ?st = "\<lparr>rapl_energy_uj = energy, rapl_observed_at_ns = observed, rapl_max_energy_uj = range_max\<rparr>"
  let ?delta = "rapl_delta_uj ?st energy' range_max" and ?dt = "sat_sub (now_ns_or 0 h) observed"
  have billed: "billed = unat (window_energy_uj (power_over_gap_uw ?delta ?dt) ?dt)"
    unfolding billed_def by (rule linux_tick(2) [OF assms(1,2)])
  have spent: "unat ?delta = spent"
    unfolding spent_def using unat_rapl_delta_uj [of ?st range_max energy'] assms(3-5) by simp
  have dt: "unat ?dt = dt" by (simp add: dt_def u64_nat)
  have "spent \<le> billed + dt div 1000000000 + 1"
    if d: "0 < dt" and fits: "spent * 1000000000 div dt * (dt mod 1000000000 + 1) \<le> u64_max"
  proof -
    have nz: "?dt \<noteq> 0" using d dt by auto
    have "spent * 1000000000 div dt * 1 \<le> spent * 1000000000 div dt * (dt mod 1000000000 + 1)"
      and "spent * 1000000000 div dt * (dt mod 1000000000)
        \<le> spent * 1000000000 div dt * (dt mod 1000000000 + 1)"
      by (rule mult_le_mono2, simp)+
    then have "unat ?delta * 1000000000 div unat ?dt \<le> u64_max"
      and "unat (power_over_gap_uw ?delta ?dt) * (unat ?dt mod 1000000000) \<le> u64_max"
      using fits d by (simp_all add: unat_power_over_gap_uw spent dt)
    from window_energy_power_over_gap_ge [OF nz this] show ?thesis
      by (simp add: billed spent dt)
  qed
  then show ?thesis
    using window_energy_power_over_gap_le [of ?delta ?dt] by (auto simp: billed spent)
qed

abbreviation synced_example :: "(LinuxProvider, (u32 \<times> cell_ref) list) sampling_state" where
  "synced_example \<equiv> fst (sampling_tick btree_skip_map (linux_ops btree_skip_map)
     (sysfs_host 990 999 1000000000) (sampling_start (linux_new ''CPU'') (registry_new btree_skip_map)))"

lemma rapl_synced_example: "rapl_synced synced_example 990 1000000000 999"
  using linux_sample_ok [of "sysfs_host 990 999 1000000000" 990 999 "linux_new ''CPU''"]
  by (simp add: sampling_tick_def sampling_start_def linux_new_def rapl_synced_def now_ns_or_sysfs_host
      u64_try_from_def)

theorem linux_tick_bills_rapl_delta_witness:
  "heartbeat_uj (snd (sampling_tick btree_skip_map (linux_ops btree_skip_map)
     (sysfs_host 15 999 1100000000) synced_example)) \<le> 25
   \<and> 25 \<le> heartbeat_uj (snd (sampling_tick btree_skip_map (linux_ops btree_skip_map)
     (sysfs_host 15 999 1100000000) synced_example)) + 1"
  using linux_tick_bills_rapl_delta [OF rapl_synced_example, of "sysfs_host 15 999 1100000000" 15 btree_skip_map]
  by (simp add: counter_distance_def now_ns_or_sysfs_host u64_try_from_def)

lemma linux_run_bound:
  assumes "range_max \<noteq> U64_MAX" and "list_all (rapl_tick range_max) ticks"
  shows "sum_list (map heartbeat_uj (snd (sampling_run sm (linux_ops sm) (map fst ticks)
            (sampling_start (linux_new sig) r))))
          \<le> recorded_from range_max None (readings ticks)"
  using linux_run_bounded_general [OF assms(1), of "sampling_start (linux_new sig) r" ticks sm] assms(2)
  by (simp add: rapl_known_def sampling_start_def linux_new_def last_reading_def)

text \<open>Sampling does not touch the set of active processes, so its size stays a machine word.\<close>

lemma linux_sample_active: "lp_active_pids (fst (linux_sample_power_state h p)) = lp_active_pids p"
  by (simp add: linux_sample_power_state_def read_rapl_power_uw_def Let_def split: sum.split)

lemma linux_run_pids_fit:
  "length (active_pid_set (sl_provider s)) \<le> u64_max \<Longrightarrow>
   list_all pids_fit (snd (sampling_run sm (linux_ops sm) es s))"
proof (induction es arbitrary: s)
  case (Cons e es)
  obtain s1 hb where tick: "sampling_tick sm (linux_ops sm) e s = (s1, hb)" by fastforce
  have "active_pid_set (sl_provider s1) = active_pid_set (sl_provider s)
      \<and> (length (active_pid_set (sl_provider s)) \<le> u64_max \<longrightarrow> pids_fit hb)"
    using tick linux_sample_active [of e "sl_provider s"]
    by (auto simp: sampling_tick_def active_pid_set_def linux_ops_def Let_def
        split: prod.splits sum.splits option.splits)
  then show ?case using Cons by (simp add: tick split: prod.split) (metis snd_conv)
qed simp

text \<open>
  End to end: over any run from a new provider, whatever the clock does and whichever
  ticks fail to read the counter, the energy the loop bills to all processes together is at
  most the energy the RAPL counter recorded from its first to its last successful reading,
  across any number of counter wraps.
\<close>

theorem linux_run_bills_at_most_rapl:
  assumes "range_max \<noteq> U64_MAX" and "list_all (rapl_tick range_max) ticks"
  shows "sum_list (map heartbeat_uj (snd (sampling_run sm (linux_ops sm) (map fst ticks)
            (sampling_start (linux_new sig) r))))
          \<le> recorded_from range_max None (readings ticks)"
  using assms by (rule linux_run_bound)

text \<open>Four ticks, the third of which finds no counter.\<close>

theorem linux_run_bills_at_most_rapl_witness:
  "sum_list (map heartbeat_uj (snd (sampling_run btree_skip_map (linux_ops btree_skip_map)
      [sysfs_host 990 999 1000000000, sysfs_host 15 999 1100000000, bare_sysfs, sysfs_host 40 999 1300000000]
      (sampling_start (linux_new ''CPU'') (registry_new btree_skip_map))))) \<le> 50"
  using linux_run_bills_at_most_rapl [of 999 "[(sysfs_host 990 999 1000000000, Some 990),
      (sysfs_host 15 999 1100000000, Some 15), (bare_sysfs, None), (sysfs_host 40 999 1300000000, Some 40)]"
      btree_skip_map "''CPU''" "registry_new btree_skip_map"]
  by (simp add: counter_distance_def List.map_filter_simps)

end
