(* ===== verification/Foreign.thy ===== *)
theory Foreign
  imports Host "HOL-Library.Multiset"
begin

text \<open>
  What the program uses at its foreign-function boundary.  From the standard library:
  \<open>CString::new\<close>, \<open>CStr::from_ptr\<close> and \<open>to_string_lossy\<close>.  From Apple's CoreFoundation,
  which is not part of the repository: a record of functions over a state \<open>'w\<close> of the
  foreign world, an argument of every definition that calls them.  A foreign pointer is a
  64-bit word and the null pointer is 0.

  \<open>cf_create_rule\<close> states CoreFoundation's documented ownership convention: what a
  \<open>Create\<close> function returns is owned by the caller until it is released.  \<open>drop_after\<close> is
  the scope of a local variable whose type has a \<open>Drop\<close> implementation, which runs whichever
  way the scope is left; \<open>scoped\<close> is the scope of a variable that releases a reference.
\<close>

section \<open>C strings\<close>

definition CString_new :: "string \<Rightarrow> string result" where
  "CString_new s =
     (if CHR 0x00 \<in> set s
      then Err (''nul byte found in provided data at position: ''
                @ show_nat (length (takeWhile (\<lambda>c. c \<noteq> CHR 0x00) s)))
      else Ok s)"

text \<open>The bytes of a buffer up to its first NUL.\<close>

definition CStr_from_ptr :: "string \<Rightarrow> string" where
  "CStr_from_ptr buffer = takeWhile (\<lambda>c. c \<noteq> CHR 0x00) buffer"

text \<open>
  One step of the lossy decoder: whether a well-formed code point starts here and how many
  bytes it, or the maximal ill-formed prefix, takes.  Reading past the end gives 0.
\<close>

definition byte_at :: "string \<Rightarrow> nat \<Rightarrow> nat" where
  "byte_at bs i = (if i < length bs then of_char (bs ! i) else 0)"

definition continuation :: "nat \<Rightarrow> bool" where
  "continuation b \<longleftrightarrow> 0x80 \<le> b \<and> b \<le> 0xBF"

definition second_of_three :: "nat \<Rightarrow> nat \<Rightarrow> bool" where
  "second_of_three b0 b1 \<longleftrightarrow>
     (b0 = 0xE0 \<and> 0xA0 \<le> b1 \<and> b1 \<le> 0xBF) \<or> (0xE1 \<le> b0 \<and> b0 \<le> 0xEC \<and> continuation b1)
     \<or> (b0 = 0xED \<and> 0x80 \<le> b1 \<and> b1 \<le> 0x9F) \<or> (0xEE \<le> b0 \<and> b0 \<le> 0xEF \<and> continuation b1)"

definition second_of_four :: "nat \<Rightarrow> nat \<Rightarrow> bool" where
  "second_of_four b0 b1 \<longleftrightarrow>
     (b0 = 0xF0 \<and> 0x90 \<le> b1 \<and> b1 \<le> 0xBF) \<or> (0xF1 \<le> b0 \<and> b0 \<le> 0xF3 \<and> continuation b1)
     \<or> (b0 = 0xF4 \<and> 0x80 \<le> b1 \<and> b1 \<le> 0x8F)"

definition utf8_step :: "string \<Rightarrow> bool \<times> nat" where
  "utf8_step bs =
     (let b0 = byte_at bs 0; b1 = byte_at bs 1; b2 = byte_at bs 2; b3 = byte_at bs 3 in
      if b0 < 0x80 then (True, 1)
      else if 0xC2 \<le> b0 \<and> b0 \<le> 0xDF then (if continuation b1 then (True, 2) else (False, 1))
      else if 0xE0 \<le> b0 \<and> b0 \<le> 0xEF then
        (if \<not> second_of_three b0 b1 then (False, 1)
         else if \<not> continuation b2 then (False, 2) else (True, 3))
      else if 0xF0 \<le> b0 \<and> b0 \<le> 0xF4 then
        (if \<not> second_of_four b0 b1 then (False, 1)
         else if \<not> continuation b2 then (False, 2)
         else if \<not> continuation b3 then (False, 3) else (True, 4))
      else (False, 1))"

lemma utf8_step_pos: "0 < snd (utf8_step bs)"
  by (simp add: utf8_step_def Let_def)

text \<open>Every maximal ill-formed prefix becomes one replacement character U+FFFD.\<close>

function to_string_lossy :: "string \<Rightarrow> string" where
  "to_string_lossy bs =
     (if bs = [] then []
      else case utf8_step bs of
        (ok, n) \<Rightarrow> (if ok then take n bs else [CHR 0xEF, CHR 0xBF, CHR 0xBD]) @ to_string_lossy (drop n bs))"
  by pat_completeness auto
termination
proof (relation "measure length")
  fix bs ok and n :: nat
  assume "bs \<noteq> []" and "(ok, n) = utf8_step bs"
  moreover have "0 < snd (utf8_step bs)" by (rule utf8_step_pos)
  ultimately show "(drop n bs, bs) \<in> measure length" by (simp add: prod_eq_iff)
qed simp

declare to_string_lossy.simps [simp del]

lemma to_string_lossy_Nil [simp]: "to_string_lossy [] = []"
  by (subst to_string_lossy.simps) simp

lemma to_string_lossy_eq_Nil [simp]: "to_string_lossy bs = [] \<longleftrightarrow> bs = []"
  using utf8_step_pos [of bs] by (subst to_string_lossy.simps) (auto split: prod.splits)

lemma to_string_lossy_ascii: "list_all (\<lambda>c. of_char c < (0x80 :: nat)) bs \<Longrightarrow> to_string_lossy bs = bs"
proof (induction bs)
  case (Cons c bs)
  then have "utf8_step (c # bs) = (True, 1)"
    by (simp add: utf8_step_def byte_at_def Let_def)
  with Cons show ?case by (subst to_string_lossy.simps) simp
qed simp

section \<open>CoreFoundation\<close>

type_synonym c_ref = u64

record 'w cf_ops =
  CFRelease :: "c_ref \<Rightarrow> 'w \<Rightarrow> 'w"
  CFStringCreateWithCString :: "string \<Rightarrow> 'w \<Rightarrow> c_ref \<times> 'w"
  CFStringGetLength :: "c_ref \<Rightarrow> 'w \<Rightarrow> int"
  CFStringGetMaximumSizeForEncoding :: "int \<Rightarrow> int"
  CFStringGetCString :: "c_ref \<Rightarrow> string \<Rightarrow> 'w \<Rightarrow> u8 \<times> string"

text \<open>What a \<open>Create\<close> function that returned \<open>x\<close> adds to the owned references.\<close>

definition created :: "c_ref \<Rightarrow> c_ref multiset" where
  "created x = (if x = 0 then {#} else {#x#})"

lemma created_simps [simp]: "created 0 = {#}" "x \<noteq> 0 \<Longrightarrow> created x = {#x#}"
  by (simp_all add: created_def)

definition cf_create_rule :: "('w, 'z) cf_ops_scheme \<Rightarrow> ('w \<Rightarrow> c_ref multiset) \<Rightarrow> bool" where
  "cf_create_rule cf owned \<longleftrightarrow>
     (\<forall>x w. owned (CFRelease cf x w) = owned w - {#x#})
     \<and> (\<forall>s w. owned (snd (CFStringCreateWithCString cf s w))
           = owned w + created (fst (CFStringCreateWithCString cf s w)))"

lemma cf_owned_release: "cf_create_rule cf owned \<Longrightarrow> owned (CFRelease cf x w) = owned w - {#x#}"
  by (simp add: cf_create_rule_def)

lemma cf_owned_string:
  "cf_create_rule cf owned \<Longrightarrow> CFStringCreateWithCString cf s w = (x, w') \<Longrightarrow> owned w' = owned w + created x"
  unfolding cf_create_rule_def by (metis fst_conv snd_conv)

definition drop_after :: "('w \<Rightarrow> 'w) \<Rightarrow> ('w \<Rightarrow> 'a \<times> 'w) \<Rightarrow> 'w \<Rightarrow> 'a \<times> 'w" where
  "drop_after release body w = (case body w of (r, w') \<Rightarrow> (r, release w'))"

lemma fst_drop_after [simp]: "fst (drop_after release body w) = fst (body w)"
  by (simp add: drop_after_def split: prod.split)

lemma snd_drop_after [simp]: "snd (drop_after release body w) = release (snd (body w))"
  by (simp add: drop_after_def split: prod.split)

definition scoped :: "('w, 'z) cf_ops_scheme \<Rightarrow> c_ref \<Rightarrow> ('w \<Rightarrow> 'a \<times> 'w) \<Rightarrow> 'w \<Rightarrow> 'a \<times> 'w" where
  "scoped cf x = drop_after (CFRelease cf x)"

lemma fst_scoped [simp]: "fst (scoped cf x body w) = fst (body w)"
  by (simp add: scoped_def)

lemma snd_scoped [simp]: "snd (scoped cf x body w) = CFRelease cf x (snd (body w))"
  by (simp add: scoped_def)

end
