(* ===== verification/Apple_Provider.thy ===== *)
theory Apple_Provider
  imports Provider Foreign "HOL-Library.Sublist"
begin

text \<open>
  The Apple Silicon provider, \<open>src/providers/apple_silicon.rs\<close>: the channel classifier on
  bytes, channel discovery, the differential IOReport sampler that keeps a subscription and
  the previous sample set alive between ticks, and the trait implementation.  IOReport is
  not part of the repository; its entry points extend the CoreFoundation record of
  \<open>Foreign\<close> and act on the foreign world.

  The theorems characterise the classifier, show that no sequence of samples leaks or
  over-releases a reference on any path, and that a run bills at most the nanojoules IOReport
  reported.
\<close>

section \<open>Foreign interface\<close>

record 'w ioreport_ops = "'w cf_ops" +
  CFArrayGetCount :: "c_ref \<Rightarrow> 'w \<Rightarrow> int"
  CFArrayGetValueAtIndex :: "c_ref \<Rightarrow> int \<Rightarrow> 'w \<Rightarrow> c_ref"
  CFDictionaryGetValue :: "c_ref \<Rightarrow> c_ref \<Rightarrow> 'w \<Rightarrow> c_ref"
  IOReportCopyChannelsInGroup :: "c_ref \<Rightarrow> 'w \<Rightarrow> c_ref \<times> 'w"
  IOReportChannelGetGroup :: "c_ref \<Rightarrow> 'w \<Rightarrow> c_ref"
  IOReportChannelGetSubGroup :: "c_ref \<Rightarrow> 'w \<Rightarrow> c_ref"
  IOReportChannelGetChannelName :: "c_ref \<Rightarrow> 'w \<Rightarrow> c_ref"
  IOReportChannelGetUnitLabel :: "c_ref \<Rightarrow> 'w \<Rightarrow> c_ref"
  IOReportCreateSubscription :: "c_ref \<Rightarrow> 'w \<Rightarrow> c_ref \<times> 'w"
  IOReportCreateSamples :: "c_ref \<Rightarrow> 'w \<Rightarrow> c_ref \<times> 'w"
  IOReportCreateSamplesDelta :: "c_ref \<Rightarrow> c_ref \<Rightarrow> 'w \<Rightarrow> c_ref \<times> 'w"
  IOReportSimpleGetIntegerValue :: "c_ref \<Rightarrow> 'w \<Rightarrow> i64"

section \<open>Data\<close>

definition IOREPORT_CHANNELS_KEY :: string where
  "IOREPORT_CHANNELS_KEY = ''IOReportChannels''"

definition ENERGY_MODEL_GROUP :: string where
  "ENERGY_MODEL_GROUP = ''Energy Model''"

definition NJ_PER_UJ :: u64 where
  "NJ_PER_UJ = 1000"

record AppleEnergyChannel =
  ch_group :: string
  ch_subgroup :: string
  ch_channel_name :: string
  ch_unit_label :: string

record AppleEnergyDelta =
  delta_channel_name :: string
  delta_energy_uj :: u64

text \<open>The owners of a foreign reference; their \<open>Drop\<close> implementations are below.\<close>

datatype ChannelRoot = ChannelRoot (channel_root_as_raw: c_ref)

datatype Subscription = Subscription (subscription_raw: c_ref)

datatype SamplesHandle = SamplesHandle (samples_as_raw: c_ref)

record IoReportHandles =
  h_subscription :: Subscription
  h_previous_samples :: SamplesHandle

text \<open>\<open>ap_last_observed_at_ns\<close> is the only field of \<open>IoReportState\<close>.\<close>

record AppleSiliconProvider =
  ap_hardware_signature :: string
  ap_pending :: "PidEnergyAttribution list"
  ap_last_observed_at_ns :: u64
  ap_ioreport_handles :: "IoReportHandles option"
  ap_active_pids :: "u32 list"
  ap_idle_power_uw :: u64

section \<open>The channel classifier\<close>

definition to_ascii_lowercase :: "char \<Rightarrow> char" where
  "to_ascii_lowercase c =
     (let n = of_char c in if 65 \<le> n \<and> n \<le> (90 :: nat) then char_of (n + 32) else c)"

definition eq_ignore_ascii_case :: "string \<Rightarrow> string \<Rightarrow> bool" where
  "eq_ignore_ascii_case a b \<longleftrightarrow>
     length a = length b \<and> list_all2 (\<lambda>x y. to_ascii_lowercase x = to_ascii_lowercase y) a b"

definition starts_with_ignore_ascii_case :: "string \<Rightarrow> string \<Rightarrow> bool" where
  "starts_with_ignore_ascii_case haystack needle \<longleftrightarrow>
     length haystack \<ge> length needle
     \<and> eq_ignore_ascii_case (take (length needle) haystack) needle"

text \<open>\<open>slice::windows\<close>: the contiguous pieces of a given positive length, in order.\<close>

fun slice_windows :: "nat \<Rightarrow> 'a list \<Rightarrow> 'a list list" where
  "slice_windows n [] = []"
| "slice_windows n (x # xs) =
     (if n \<le> length (x # xs) then take n (x # xs) # slice_windows n xs else [])"

definition contains_ignore_ascii_case :: "string \<Rightarrow> string \<Rightarrow> bool" where
  "contains_ignore_ascii_case haystack needle =
     (if needle = [] then True
      else if length haystack < length needle then False
      else list_ex (\<lambda>window. eq_ignore_ascii_case window needle) (slice_windows (length needle) haystack))"

definition is_gpu_or_ane_energy_channel :: "string \<Rightarrow> string \<Rightarrow> string \<Rightarrow> bool" where
  "is_gpu_or_ane_energy_channel grp subgroup channel_name =
     (if \<not> eq_ignore_ascii_case grp ENERGY_MODEL_GROUP then False
      else starts_with_ignore_ascii_case channel_name ''GPU''
        \<or> starts_with_ignore_ascii_case channel_name ''ANE''
        \<or> contains_ignore_ascii_case subgroup ''GPU''
        \<or> contains_ignore_ascii_case subgroup ''ANE'')"

section \<open>CoreFoundation helpers\<close>

text \<open>
  The \<open>Debug\<close> form of a C string; the module only prints its two constants, which hold
  nothing that would be escaped.
\<close>

definition debug_cstring :: "string \<Rightarrow> string" where
  "debug_cstring s = CHR 0x22 # s @ [CHR 0x22]"

definition cfstring_new :: "('w, 'z) cf_ops_scheme \<Rightarrow> string \<Rightarrow> 'w \<Rightarrow> c_ref result \<times> 'w" where
  "cfstring_new cf v w =
     (case CString_new v of
        Inl err \<Rightarrow> (Err err, w)
      | Inr c \<Rightarrow>
          (case CFStringCreateWithCString cf c w of
             (raw, w') \<Rightarrow>
               if raw = 0 then (Err (''failed to allocate CFString for '' @ debug_cstring c), w')
               else (Ok raw, w')))"

definition cfstring_to_string :: "('w, 'z) cf_ops_scheme \<Rightarrow> c_ref \<Rightarrow> 'w \<Rightarrow> string result" where
  "cfstring_to_string cf v w =
     (if v = 0 then Err ''IOReport returned a null CFString field''
      else let length' = CFStringGetLength cf v w;
               max_size = CFStringGetMaximumSizeForEncoding cf length'
           in if max_size < 0 then Err ''CoreFoundation returned an invalid UTF-8 buffer size''
              else case CFStringGetCString cf v (replicate (nat max_size + 1) (CHR 0x00)) w of
                (converted, buffer) \<Rightarrow>
                  if converted = 0 then Err ''CoreFoundation failed to export a UTF-8 string''
                  else Ok (to_string_lossy (CStr_from_ptr buffer)))"

definition channel_root_drop :: "('w, 'z) cf_ops_scheme \<Rightarrow> ChannelRoot \<Rightarrow> 'w \<Rightarrow> 'w" where
  "channel_root_drop cf root = CFRelease cf (channel_root_as_raw root)"

definition subscription_drop :: "('w, 'z) cf_ops_scheme \<Rightarrow> Subscription \<Rightarrow> 'w \<Rightarrow> 'w" where
  "subscription_drop cf subscription = CFRelease cf (subscription_raw subscription)"

definition samples_drop :: "('w, 'z) cf_ops_scheme \<Rightarrow> SamplesHandle \<Rightarrow> 'w \<Rightarrow> 'w" where
  "samples_drop cf samples = CFRelease cf (samples_as_raw samples)"

lemmas drop_defs [simp] = channel_root_drop_def subscription_drop_def samples_drop_def

definition cf_dictionary_array :: "'w ioreport_ops \<Rightarrow> c_ref \<Rightarrow> string \<Rightarrow> 'w \<Rightarrow> c_ref result \<times> 'w" where
  "cf_dictionary_array io dictionary key w =
     (case cfstring_new io key w of
        (Inl err, w) \<Rightarrow> (Err err, w)
      | (Inr cf_key, w) \<Rightarrow>
          scoped io cf_key (\<lambda>w.
            let v = CFDictionaryGetValue io dictionary cf_key w in
            if v = 0 then (Err (''IOReport dictionary is missing the '' @ key @ '' array''), w)
            else (Ok v, w)) w)"

section \<open>The provider\<close>

definition apple_with_idle_power_uw :: "string \<Rightarrow> u64 \<Rightarrow> AppleSiliconProvider" where
  "apple_with_idle_power_uw sig idle =
     \<lparr>ap_hardware_signature = sig, ap_pending = [], ap_last_observed_at_ns = 0,
      ap_ioreport_handles = None, ap_active_pids = [], ap_idle_power_uw = idle\<rparr>"

definition apple_new :: "string \<Rightarrow> AppleSiliconProvider" where
  "apple_new sig = apple_with_idle_power_uw sig 0"

definition idle_power_uw :: "AppleSiliconProvider \<Rightarrow> u64" where
  "idle_power_uw p = ap_idle_power_uw p"

definition set_idle_power_uw :: "AppleSiliconProvider \<Rightarrow> u64 \<Rightarrow> AppleSiliconProvider" where
  "set_idle_power_uw p idle = p\<lparr>ap_idle_power_uw := idle\<rparr>"

definition apple_enqueue_attribution :: "AppleSiliconProvider \<Rightarrow> PidEnergyAttribution \<Rightarrow> AppleSiliconProvider" where
  "apple_enqueue_attribution p a = p\<lparr>ap_pending := ap_pending p @ [a]\<rparr>"

definition set_active_pids :: "AppleSiliconProvider \<Rightarrow> u32 list \<Rightarrow> AppleSiliconProvider" where
  "set_active_pids p pids = p\<lparr>ap_active_pids := pids\<rparr>"

text \<open>Walking the channel catalogue; a text that cannot be read ends the discovery.\<close>

fun discover_loop ::
  "'w ioreport_ops \<Rightarrow> c_ref \<Rightarrow> int list \<Rightarrow> 'w \<Rightarrow> AppleEnergyChannel list \<Rightarrow> AppleEnergyChannel list result" where
  "discover_loop io channels [] w discovered = Ok discovered"
| "discover_loop io channels (index # indices) w discovered =
     (let channel = CFArrayGetValueAtIndex io channels index w in
      if channel = 0 then discover_loop io channels indices w discovered
      else case cfstring_to_string io (IOReportChannelGetGroup io channel w) w of
          Inl err \<Rightarrow> Err err
        | Inr grp \<Rightarrow>
      (case cfstring_to_string io (IOReportChannelGetSubGroup io channel w) w of
          Inl err \<Rightarrow> Err err
        | Inr subgroup \<Rightarrow>
      (case cfstring_to_string io (IOReportChannelGetChannelName io channel w) w of
          Inl err \<Rightarrow> Err err
        | Inr channel_name \<Rightarrow>
      (case cfstring_to_string io (IOReportChannelGetUnitLabel io channel w) w of
          Inl err \<Rightarrow> Err err
        | Inr unit_label \<Rightarrow>
            discover_loop io channels indices w
              (if is_gpu_or_ane_energy_channel grp subgroup channel_name
               then discovered @ [\<lparr>ch_group = grp, ch_subgroup = subgroup,
                                   ch_channel_name = channel_name, ch_unit_label = unit_label\<rparr>]
               else discovered)))))"

definition discover_gpu_ane_channels ::
  "'w ioreport_ops \<Rightarrow> AppleSiliconProvider \<Rightarrow> 'w \<Rightarrow> AppleEnergyChannel list result \<times> 'w" where
  "discover_gpu_ane_channels io p w =
     (case cfstring_new io ENERGY_MODEL_GROUP w of
        (Inl err, w) \<Rightarrow> (Err err, w)
      | (Inr energy_model_group, w) \<Rightarrow>
          scoped io energy_model_group (\<lambda>w.
            case IOReportCopyChannelsInGroup io energy_model_group w of (channel_root, w) \<Rightarrow>
            if channel_root = 0
            then (Err ''IOReport returned a null channel catalogue for the Energy Model group'', w)
            else let channel_root = ChannelRoot channel_root in
              drop_after (channel_root_drop io channel_root) (\<lambda>w.
                case cf_dictionary_array io (channel_root_as_raw channel_root) IOREPORT_CHANNELS_KEY w of
                  (Inl err, w) \<Rightarrow> (Err err, w)
                | (Inr channels, w) \<Rightarrow>
                    (discover_loop io channels [0..CFArrayGetCount io channels w - 1] w [], w)) w) w)"

text \<open>Reading the samples of a delta: channels without a name or a positive count are skipped.\<close>

fun delta_loop ::
  "'w ioreport_ops \<Rightarrow> c_ref \<Rightarrow> int list \<Rightarrow> 'w \<Rightarrow> AppleEnergyDelta list \<Rightarrow> AppleEnergyDelta list" where
  "delta_loop io channels_array [] w out = out"
| "delta_loop io channels_array (index # indices) w out =
     (let sample = CFArrayGetValueAtIndex io channels_array index w in
      if sample = 0 then delta_loop io channels_array indices w out
      else let name_ref = IOReportChannelGetChannelName io sample w in
      if name_ref = 0 then delta_loop io channels_array indices w out
      else case cfstring_to_string io name_ref w of
          Inl _ \<Rightarrow> delta_loop io channels_array indices w out
        | Inr name \<Rightarrow>
            let raw_nj = IOReportSimpleGetIntegerValue io sample w in
            if sint raw_nj \<le> 0 then delta_loop io channels_array indices w out
            else delta_loop io channels_array indices w
                   (out @ [\<lparr>delta_channel_name = name, delta_energy_uj = raw_nj div NJ_PER_UJ\<rparr>]))"

text \<open>The first call opens the subscription and takes the seed sample.\<close>

definition seed_ioreport ::
  "'w ioreport_ops \<Rightarrow> AppleSiliconProvider \<Rightarrow> 'w \<Rightarrow> (AppleSiliconProvider \<times> AppleEnergyDelta list result) \<times> 'w" where
  "seed_ioreport io p w =
     (case cfstring_new io ENERGY_MODEL_GROUP w of
        (Inl err, w) \<Rightarrow> ((p, Err err), w)
      | (Inr grp, w) \<Rightarrow>
          scoped io grp (\<lambda>w.
            case IOReportCopyChannelsInGroup io grp w of (channels, w) \<Rightarrow>
            if channels = 0
            then ((p, Err ''IOReportCopyChannelsInGroup returned NULL for the Energy Model group''), w)
            else let channels = ChannelRoot channels in
              drop_after (channel_root_drop io channels) (\<lambda>w.
                case IOReportCreateSubscription io (channel_root_as_raw channels) w of (subscribed, w) \<Rightarrow>
                if subscribed = 0
                then ((p, Err ''IOReportCreateSubscription failed for the Energy Model group''), w)
                else let subscription = Subscription subscribed in
                case IOReportCreateSamples io (subscription_raw subscription) w of (prev, w) \<Rightarrow>
                if prev = 0
                then ((p, Err ''IOReportCreateSamples (seed) returned NULL''),
                      subscription_drop io subscription w)
                else ((p\<lparr>ap_ioreport_handles :=
                          Some \<lparr>h_subscription = subscription, h_previous_samples = SamplesHandle prev\<rparr>\<rparr>,
                       Ok []), w)) w) w)"

text \<open>
  A later call takes one sample and the difference to the previous one; the local handles
  are dropped on every way out, and on success the new sample replaces the previous one,
  which is dropped by the assignment.
\<close>

definition read_ioreport_delta ::
  "'w ioreport_ops \<Rightarrow> AppleSiliconProvider \<Rightarrow> IoReportHandles \<Rightarrow> 'w
     \<Rightarrow> (AppleSiliconProvider \<times> AppleEnergyDelta list result) \<times> 'w" where
  "read_ioreport_delta io p handles w =
     (case IOReportCreateSamples io (subscription_raw (h_subscription handles)) w of (current, w) \<Rightarrow>
      if current = 0 then ((p, Err ''IOReportCreateSamples (current) returned NULL''), w)
      else let current = SamplesHandle current in
      (case IOReportCreateSamplesDelta io (samples_as_raw (h_previous_samples handles))
              (samples_as_raw current) w of (delta, w) \<Rightarrow>
      if delta = 0
      then ((p, Err ''IOReportCreateSamplesDelta returned NULL''), samples_drop io current w)
      else let delta = SamplesHandle delta in
      (case cf_dictionary_array io (samples_as_raw delta) IOREPORT_CHANNELS_KEY w of
          (Inl err, w) \<Rightarrow> ((p, Err err), samples_drop io current (samples_drop io delta w))
        | (Inr channels_array, w) \<Rightarrow>
            (let out = delta_loop io channels_array [0..CFArrayGetCount io channels_array w - 1] w [];
                 w = samples_drop io (h_previous_samples handles) w
             in ((p\<lparr>ap_ioreport_handles := Some (handles\<lparr>h_previous_samples := current\<rparr>)\<rparr>, Ok out),
                 samples_drop io delta w)))))"

definition sample_energy_model_delta ::
  "'w ioreport_ops \<Rightarrow> AppleSiliconProvider \<Rightarrow> 'w \<Rightarrow> (AppleSiliconProvider \<times> AppleEnergyDelta list result) \<times> 'w" where
  "sample_energy_model_delta io p w =
     (case ap_ioreport_handles p of
        None \<Rightarrow> seed_ioreport io p w
      | Some handles \<Rightarrow> read_ioreport_delta io p handles w)"

text \<open>Dropping a provider drops the subscription and the previous samples.\<close>

definition apple_drop :: "'w ioreport_ops \<Rightarrow> AppleSiliconProvider \<Rightarrow> 'w \<Rightarrow> 'w" where
  "apple_drop io p w =
     (case ap_ioreport_handles p of
        None \<Rightarrow> w
      | Some handles \<Rightarrow>
          samples_drop io (h_previous_samples handles) (subscription_drop io (h_subscription handles) w))"

section \<open>The trait implementation\<close>

definition sum_energy_uj :: "AppleEnergyDelta list \<Rightarrow> u64" where
  "sum_energy_uj ds = fold (\<lambda>x acc. sat_add acc x) (map delta_energy_uj ds) 0"

definition apple_gap_ns :: "AppleSiliconProvider \<Rightarrow> u64 \<Rightarrow> u64" where
  "apple_gap_ns p observed_at_ns =
     (if ap_last_observed_at_ns p = 0 then 0 else sat_sub observed_at_ns (ap_last_observed_at_ns p))"

text \<open>The condition of the sampler's \<open>debug_assert!\<close>.\<close>

definition apple_debug_assert :: "u64 \<Rightarrow> u64 \<Rightarrow> u64 \<Rightarrow> bool" where
  "apple_debug_assert active_power_uw dt_ns total_uj \<longleftrightarrow>
     window_energy_uj active_power_uw dt_ns \<le> sat_add total_uj 1"

definition apple_sample_power_state ::
  "'w ioreport_ops \<Rightarrow> host \<Rightarrow> AppleSiliconProvider \<times> 'w
     \<Rightarrow> (AppleSiliconProvider \<times> 'w) \<times> PowerSnapshot result" where
  "apple_sample_power_state io h pw =
     (let observed_at_ns = now_ns_or U64_MAX h in
      case sample_energy_model_delta io (fst pw) (snd pw) of
        ((p, Inl err), w) \<Rightarrow>
          ((p, w), Err (''AppleSiliconProvider::sample_power_state failed to read IOReport: '' @ err))
      | ((p, Inr ds), w) \<Rightarrow>
          let total_uj = sum_energy_uj ds;
              dt_ns = apple_gap_ns p observed_at_ns;
              active_power_uw = power_over_gap_uw total_uj dt_ns
          in ((p\<lparr>ap_last_observed_at_ns := observed_at_ns\<rparr>, w),
              Ok \<lparr>snap_observed_at_ns = observed_at_ns, snap_idle_power_uw = ap_idle_power_uw p,
                  snap_active_power_uw = active_power_uw, snap_cpu_power_uw = 0, snap_gpu_power_uw = 0,
                  snap_accelerator_power_uw = active_power_uw,
                  snap_hardware_signature = ap_hardware_signature p\<rparr>))"

text \<open>
  The same method as a debug build runs it: the assertion is checked before the snapshot is
  returned, and panics when it does not hold.
\<close>

definition apple_sample_power_state_debug ::
  "'w ioreport_ops \<Rightarrow> host \<Rightarrow> AppleSiliconProvider \<times> 'w
     \<Rightarrow> ((AppleSiliconProvider \<times> 'w) \<times> PowerSnapshot result) exec" where
  "apple_sample_power_state_debug io h pw =
     (let observed_at_ns = now_ns_or U64_MAX h in
      case sample_energy_model_delta io (fst pw) (snd pw) of
        ((p, Inl err), w) \<Rightarrow>
          Finished ((p, w), Err (''AppleSiliconProvider::sample_power_state failed to read IOReport: '' @ err))
      | ((p, Inr ds), w) \<Rightarrow>
          let total_uj = sum_energy_uj ds;
              dt_ns = apple_gap_ns p observed_at_ns;
              active_power_uw = power_over_gap_uw total_uj dt_ns;
              p = p\<lparr>ap_last_observed_at_ns := observed_at_ns\<rparr>
          in if \<not> apple_debug_assert active_power_uw dt_ns total_uj then Panicked
             else Finished ((p, w),
               Ok \<lparr>snap_observed_at_ns = observed_at_ns, snap_idle_power_uw = ap_idle_power_uw p,
                   snap_active_power_uw = active_power_uw, snap_cpu_power_uw = 0, snap_gpu_power_uw = 0,
                   snap_accelerator_power_uw = active_power_uw,
                   snap_hardware_signature = ap_hardware_signature p\<rparr>))"

definition apple_attribute_joules_to_pid ::
  "AppleSiliconProvider \<Rightarrow> u32 \<Rightarrow> u64 \<Rightarrow> u64 \<Rightarrow> PowerSnapshot
     \<Rightarrow> AppleSiliconProvider \<times> PidEnergyAttribution result" where
  "apple_attribute_joules_to_pid p pid window_start_ns window_end_ns snap =
     (let attribution = baseline_burst pid window_start_ns window_end_ns snap in
      if snap_hardware_signature snap \<noteq> ap_hardware_signature p
      then (p, Err (''AppleSiliconProvider received a PowerSnapshot for different hardware (snapshot: ''
                    @ snap_hardware_signature snap @ '', provider: '' @ ap_hardware_signature p @ '')''))
      else (p, Ok attribution))"

definition apple_sync_registry ::
  "'t skip_map_ops \<Rightarrow> AppleSiliconProvider \<Rightarrow> 't AmalgafyRegistry
     \<Rightarrow> AppleSiliconProvider \<times> 't AmalgafyRegistry \<times> u64 result" where
  "apple_sync_registry sm p r =
     (case drain_pending sm (ap_pending p) r 0 of
        (r', total_uj) \<Rightarrow> (p\<lparr>ap_pending := []\<rparr>, r', Ok total_uj))"

text \<open>The state of the provider in the sampling loop includes the foreign world.\<close>

definition apple_ops ::
  "'t skip_map_ops \<Rightarrow> 'w ioreport_ops \<Rightarrow> (AppleSiliconProvider \<times> 'w, host, 't) provider_ops" where
  "apple_ops sm io =
     \<lparr>trait_sample_power_state = apple_sample_power_state io,
      trait_attribute_joules_to_pid = (\<lambda>(p, w) pid ws we snap.
        case apple_attribute_joules_to_pid p pid ws we snap of (p, res) \<Rightarrow> ((p, w), res)),
      trait_sync_registry = (\<lambda>(p, w) r. case apple_sync_registry sm p r of (p, r, res) \<Rightarrow> ((p, w), r, res)),
      trait_hardware_signature = (\<lambda>(p, w). ap_hardware_signature p),
      trait_active_pids = (\<lambda>(p, w). ap_active_pids p)\<rparr>"

interpretation app: pending_provider sm ap_pending apple_enqueue_attribution "apple_sync_registry sm"
  for sm
  by unfold_locales
     (simp_all add: apple_enqueue_attribution_def apple_sync_registry_def split_beta)

section \<open>The classifier and lower-cased texts\<close>

abbreviation lower :: "string \<Rightarrow> string" where
  "lower \<equiv> map to_ascii_lowercase"

lemma eq_ignore_ascii_case_iff: "eq_ignore_ascii_case a b \<longleftrightarrow> lower a = lower b"
  by (auto simp: eq_ignore_ascii_case_def list_all2_conv_all_nth list_eq_iff_nth_eq)

lemma starts_with_iff: "starts_with_ignore_ascii_case h n \<longleftrightarrow> prefix (lower n) (lower h)"
proof
  assume "starts_with_ignore_ascii_case h n"
  then have "take (length n) (lower h) = lower n"
    by (simp add: starts_with_ignore_ascii_case_def eq_ignore_ascii_case_iff take_map)
  then show "prefix (lower n) (lower h)" by (metis take_is_prefix)
next
  assume "prefix (lower n) (lower h)"
  then obtain zs where "lower h = lower n @ zs" by (auto simp: prefix_def)
  then have "take (length n) (lower h) = lower n" "length n \<le> length h"
    by (simp, metis length_append length_map le_add1)
  then show "starts_with_ignore_ascii_case h n"
    by (simp add: starts_with_ignore_ascii_case_def eq_ignore_ascii_case_iff take_map)
qed

lemma slice_windows_sublist:
  "n \<noteq> [] \<Longrightarrow> (\<exists>window \<in> set (slice_windows (length n) h). lower window = lower n) \<longleftrightarrow> sublist (lower n) (lower h)"
proof (induction h)
  case (Cons c h)
  show ?case
  proof (cases "length n \<le> length (c # h)")
    case True
    have "lower (take (length n) (c # h)) = lower n \<longleftrightarrow> prefix (lower n) (lower (c # h))"
      using True starts_with_iff [of "c # h" n]
      by (simp only: starts_with_ignore_ascii_case_def eq_ignore_ascii_case_iff simp_thms)
    then show ?thesis
      using True Cons by (auto simp: sublist_Cons_right)
  next
    case False
    then show ?thesis using sublist_length_le [of "lower n" "lower (c # h)"] by auto
  qed
qed simp

lemma contains_iff: "contains_ignore_ascii_case h n \<longleftrightarrow> sublist (lower n) (lower h)"
proof (cases "n = []")
  case False
  moreover have "\<not> sublist (lower n) (lower h)" if "length h < length n"
    using that sublist_length_le [of "lower n" "lower h"] by auto
  ultimately show ?thesis
    using slice_windows_sublist [OF False, of h]
    by (auto simp: contains_ignore_ascii_case_def eq_ignore_ascii_case_iff list_ex_iff)
qed (simp add: contains_ignore_ascii_case_def)

section \<open>References held by the sampler\<close>

text \<open>IOReport follows the create rule: what its \<open>Copy\<close> and \<open>Create\<close> functions return is owned.\<close>

definition ioreport_ownership :: "'w ioreport_ops \<Rightarrow> ('w \<Rightarrow> c_ref multiset) \<Rightarrow> bool" where
  "ioreport_ownership io owned \<longleftrightarrow>
     cf_create_rule io owned
     \<and> (\<forall>x w. owned (snd (IOReportCopyChannelsInGroup io x w)) = owned w + created (fst (IOReportCopyChannelsInGroup io x w)))
     \<and> (\<forall>x w. owned (snd (IOReportCreateSubscription io x w)) = owned w + created (fst (IOReportCreateSubscription io x w)))
     \<and> (\<forall>x w. owned (snd (IOReportCreateSamples io x w)) = owned w + created (fst (IOReportCreateSamples io x w)))
     \<and> (\<forall>x y w. owned (snd (IOReportCreateSamplesDelta io x y w))
           = owned w + created (fst (IOReportCreateSamplesDelta io x y w)))"

lemma ioreport_ownershipD:
  assumes "ioreport_ownership io owned"
  shows "owned (CFRelease io x w) = owned w - {#x#}"
    and "CFStringCreateWithCString io t w = (r, w') \<Longrightarrow> owned w' = owned w + created r"
    and "IOReportCopyChannelsInGroup io x w = (r, w') \<Longrightarrow> owned w' = owned w + created r"
    and "IOReportCreateSubscription io x w = (r, w') \<Longrightarrow> owned w' = owned w + created r"
    and "IOReportCreateSamples io x w = (r, w') \<Longrightarrow> owned w' = owned w + created r"
    and "IOReportCreateSamplesDelta io x y w = (r, w') \<Longrightarrow> owned w' = owned w + created r"
  using assms unfolding ioreport_ownership_def cf_create_rule_def by (metis fst_conv snd_conv)+

text \<open>The references a provider keeps.\<close>

definition held :: "AppleSiliconProvider \<Rightarrow> c_ref multiset" where
  "held p = (case ap_ioreport_handles p of
     None \<Rightarrow> {#} | Some h \<Rightarrow> {#subscription_raw (h_subscription h), samples_as_raw (h_previous_samples h)#})"

lemma cfstring_new_owned:
  assumes "ioreport_ownership io owned" and "cfstring_new io v w = (res, w')"
  shows "owned w' = owned w + (case res of Inl _ \<Rightarrow> {#} | Inr x \<Rightarrow> {#x#})"
  using assms(2) ioreport_ownershipD(2) [OF assms(1)]
  by (auto simp: cfstring_new_def split: sum.splits prod.splits if_splits)

lemma cf_dictionary_array_owned:
  assumes "ioreport_ownership io owned"
  shows "owned (snd (cf_dictionary_array io d key w)) = owned w"
proof -
  obtain res w1 where new: "cfstring_new io key w = (res, w1)" by fastforce
  show ?thesis
    using cfstring_new_owned [OF assms new] ioreport_ownershipD(1) [OF assms]
    by (cases res) (simp_all add: cf_dictionary_array_def new scoped_def drop_after_def Let_def)
qed

lemma discover_owned:
  assumes "ioreport_ownership io owned"
  shows "owned (snd (discover_gpu_ane_channels io p w)) = owned w"
proof -
  obtain res w1 where new: "cfstring_new io ENERGY_MODEL_GROUP w = (res, w1)" by fastforce
  note N = cfstring_new_owned [OF assms new] and R = ioreport_ownershipD(1) [OF assms]
  show ?thesis
  proof (cases res)
    case (Inr grp)
    obtain root w2 where root: "IOReportCopyChannelsInGroup io grp w1 = (root, w2)" by fastforce
    have w2: "owned w2 = owned w + {#grp#} + created root"
      using N Inr ioreport_ownershipD(3) [OF assms root] by simp
    have "owned (snd (cf_dictionary_array io root IOREPORT_CHANNELS_KEY w2)) = owned w2"
      by (rule cf_dictionary_array_owned [OF assms])
    then show ?thesis
      using w2 by (cases "root = 0") (auto simp: discover_gpu_ane_channels_def new Inr root R
          split: prod.split sum.split)
  qed (use N in \<open>simp add: discover_gpu_ane_channels_def new\<close>)
qed

lemma seed_ioreport_owned:
  assumes "ioreport_ownership io owned" and "ap_ioreport_handles p = None"
    and "seed_ioreport io p w = ((p', res), w')"
  shows "owned w' = owned w + held p'"
proof -
  note D = ioreport_ownershipD [OF assms(1)]
  obtain res1 w1 where new: "cfstring_new io ENERGY_MODEL_GROUP w = (res1, w1)" by fastforce
  note N = cfstring_new_owned [OF assms(1) new]
  show ?thesis
  proof (cases res1)
    case (Inl err)
    then show ?thesis using N assms(2,3) by (auto simp: seed_ioreport_def new held_def)
  next
    case (Inr grp)
    obtain ch w2 where ch: "IOReportCopyChannelsInGroup io grp w1 = (ch, w2)" by fastforce
    obtain sub w3 where sub: "IOReportCreateSubscription io ch w2 = (sub, w3)" by fastforce
    obtain prev w4 where prev: "IOReportCreateSamples io sub w3 = (prev, w4)" by fastforce
    note O = N D(3) [OF ch] D(4) [OF sub] D(5) [OF prev]
    consider "ch = 0" | "ch \<noteq> 0" "sub = 0" | "ch \<noteq> 0" "sub \<noteq> 0" "prev = 0"
      | "ch \<noteq> 0" "sub \<noteq> 0" "prev \<noteq> 0" by blast
    then show ?thesis
      using O assms(2,3) Inr
      by cases (auto simp: seed_ioreport_def new ch sub prev scoped_def drop_after_def held_def D(1))
  qed
qed

lemma read_ioreport_delta_owned:
  assumes "ioreport_ownership io owned" and "ap_ioreport_handles p = Some h"
    and "owned w = rest + held p" and "read_ioreport_delta io p h w = ((p', res), w')"
  shows "owned w' = rest + held p'"
proof -
  note D = ioreport_ownershipD [OF assms(1)]
  obtain cur w1 where cur: "IOReportCreateSamples io (subscription_raw (h_subscription h)) w = (cur, w1)" by fastforce
  obtain d w2 where d: "IOReportCreateSamplesDelta io (samples_as_raw (h_previous_samples h)) cur w1 = (d, w2)" by fastforce
  obtain arr w3 where arr: "cf_dictionary_array io d IOREPORT_CHANNELS_KEY w2 = (arr, w3)" by fastforce
  have w3: "owned w3 = owned w2"
    using cf_dictionary_array_owned [OF assms(1), of d IOREPORT_CHANNELS_KEY w2] by (simp add: arr)
  note O = D(5) [OF cur] D(6) [OF d] w3 assms(3)
  consider "cur = 0" | "cur \<noteq> 0" "d = 0" | err where "cur \<noteq> 0" "d \<noteq> 0" "arr = Inl err"
    | a where "cur \<noteq> 0" "d \<noteq> 0" "arr = Inr a" by (cases arr) auto
  then show ?thesis
    using O assms(2,4)
    by cases (auto simp: read_ioreport_delta_def cur d arr held_def D(1) Let_def)
qed

lemma sample_energy_model_delta_owned:
  assumes "ioreport_ownership io owned" and "owned w = rest + held p"
    and "sample_energy_model_delta io p w = ((p', res), w')"
  shows "owned w' = rest + held p'"
proof (cases "ap_ioreport_handles p")
  case None
  then show ?thesis
    using seed_ioreport_owned [OF assms(1) None] assms(2,3)
    by (auto simp: sample_energy_model_delta_def held_def)
next
  case (Some h)
  then show ?thesis
    using read_ioreport_delta_owned [OF assms(1) Some assms(2)] assms(3)
    by (simp add: sample_energy_model_delta_def)
qed

text \<open>A history of samples, whatever each of them returns.\<close>

fun sample_history :: "'w ioreport_ops \<Rightarrow> nat \<Rightarrow> AppleSiliconProvider \<Rightarrow> 'w \<Rightarrow> AppleSiliconProvider \<times> 'w" where
  "sample_history io 0 p w = (p, w)"
| "sample_history io (Suc n) p w =
     (case sample_energy_model_delta io p w of ((p', _), w') \<Rightarrow> sample_history io n p' w')"

lemma sample_history_owned:
  assumes "ioreport_ownership io owned"
  shows "owned w = rest + held p \<Longrightarrow> sample_history io n p w = (p', w') \<Longrightarrow> owned w' = rest + held p'"
proof (induction n arbitrary: p w)
  case (Suc n)
  obtain p1 res w1 where s: "sample_energy_model_delta io p w = ((p1, res), w1)" by (metis surj_pair)
  show ?case
    using Suc.IH [OF sample_energy_model_delta_owned [OF assms Suc.prems(1) s]] Suc.prems(2)
    by (simp add: s)
qed simp

lemma apple_drop_owned:
  "ioreport_ownership io owned \<Longrightarrow> owned w = rest + held p \<Longrightarrow> owned (apple_drop io p w) = rest"
  by (auto simp: apple_drop_def held_def ioreport_ownershipD(1) split: option.splits)

section \<open>Energy of a tick\<close>

text \<open>The micro-joules of the deltas a sample yields.\<close>

definition deltas_uj :: "AppleEnergyDelta list \<Rightarrow> nat" where
  "deltas_uj ds = sum_list (map (unat \<circ> delta_energy_uj) ds)"

lemma deltas_uj_simps [simp]:
  "deltas_uj [] = 0" "deltas_uj (ds @ [d]) = deltas_uj ds + unat (delta_energy_uj d)"
  by (simp_all add: deltas_uj_def)

lemma unat_sum_energy_uj: "unat (sum_energy_uj ds) = min (deltas_uj ds) u64_max"
  by (simp add: sum_energy_uj_def sum_list_unat_fold_sat_add deltas_uj_def)

text \<open>
  What IOReport itself says: the raw nanojoules of a channel that has a readable name, with a
  counter that went backwards counted as nothing; of all channels of a delta; and of the delta
  that IOReport makes for a tick, nothing if it makes none.
\<close>

definition channel_nj :: "'w ioreport_ops \<Rightarrow> c_ref \<Rightarrow> 'w \<Rightarrow> int \<Rightarrow> nat" where
  "channel_nj io channels_array w index =
     (let sample = CFArrayGetValueAtIndex io channels_array index w;
          name_ref = IOReportChannelGetChannelName io sample w
      in if sample \<noteq> 0 \<and> name_ref \<noteq> 0 \<and> is_ok (cfstring_to_string io name_ref w)
         then nat (sint (IOReportSimpleGetIntegerValue io sample w)) else 0)"

definition channels_nj :: "'w ioreport_ops \<Rightarrow> c_ref \<Rightarrow> 'w \<Rightarrow> nat" where
  "channels_nj io channels_array w =
     sum_list (map (channel_nj io channels_array w) [0..CFArrayGetCount io channels_array w - 1])"

definition reported_nj :: "'w ioreport_ops \<Rightarrow> AppleSiliconProvider \<times> 'w \<Rightarrow> nat" where
  "reported_nj io pw =
     (case ap_ioreport_handles (fst pw) of
        None \<Rightarrow> 0
      | Some handles \<Rightarrow>
          (case IOReportCreateSamples io (subscription_raw (h_subscription handles)) (snd pw) of
             (current, w) \<Rightarrow>
           case IOReportCreateSamplesDelta io (samples_as_raw (h_previous_samples handles)) current w of
             (delta, w) \<Rightarrow>
           if current = 0 \<or> delta = 0 then 0
           else case cf_dictionary_array io delta IOREPORT_CHANNELS_KEY w of
               (Inl _, _) \<Rightarrow> 0
             | (Inr channels_array, w) \<Rightarrow> channels_nj io channels_array w))"

lemma unat_div_NJ_PER_UJ: "0 < sint (x :: i64) \<Longrightarrow> 1000 * unat (x div NJ_PER_UJ) \<le> nat (sint x)"
proof -
  assume pos: "0 < sint x"
  have "uint x = uint (word_of_int (sint x) :: i64)" by simp
  also have "\<dots> = take_bit 64 (sint x)" by (simp only: uint_word_of_int_eq) simp
  also have "\<dots> = sint x" using pos sint_less [of x] by (intro take_bit_int_eq_self) simp_all
  finally have "nat (sint x) = unat x" by (metis unat_eq_nat_uint)
  moreover have "unat (x div NJ_PER_UJ) = unat x div 1000"
    by (simp add: NJ_PER_UJ_def unat_div)
  ultimately show ?thesis by simp
qed

lemma delta_loop_nj:
  "1000 * deltas_uj (delta_loop io arr indices w out)
     \<le> 1000 * deltas_uj out + sum_list (map (channel_nj io arr w) indices)"
proof (induction indices arbitrary: out)
  case (Cons index indices)
  let ?sample = "CFArrayGetValueAtIndex io arr index w"
  let ?name = "IOReportChannelGetChannelName io ?sample w"
  let ?nj = "IOReportSimpleGetIntegerValue io ?sample w"
  show ?case
  proof (cases "?sample \<noteq> 0 \<and> ?name \<noteq> 0 \<and> is_ok (cfstring_to_string io ?name w) \<and> 0 < sint ?nj")
    case True
    then obtain name where "cfstring_to_string io ?name w = Ok name" by (auto simp: is_ok_iff)
    with True have "1000 * deltas_uj (delta_loop io arr (index # indices) w out)
        \<le> 1000 * (deltas_uj out + unat (?nj div NJ_PER_UJ)) + sum_list (map (channel_nj io arr w) indices)"
      using Cons [of "out @ [\<lparr>delta_channel_name = name, delta_energy_uj = ?nj div NJ_PER_UJ\<rparr>]"]
      by (simp add: Let_def)
    also have "\<dots> \<le> 1000 * deltas_uj out + sum_list (map (channel_nj io arr w) (index # indices))"
      using True unat_div_NJ_PER_UJ [of ?nj] by (simp add: channel_nj_def Let_def)
    finally show ?thesis .
  next
    case False
    then have "delta_loop io arr (index # indices) w out = delta_loop io arr indices w out"
      by (auto simp: Let_def not_less split: sum.split)
    then show ?thesis using Cons [of out] by simp
  qed
qed simp

lemma sample_reports_nj:
  assumes "sample_energy_model_delta io p w = ((p', Inr ds), w')"
  shows "1000 * deltas_uj ds \<le> reported_nj io (p, w)"
proof (cases "ap_ioreport_handles p")
  case None
  then have "ds = []" using assms
    by (auto simp: sample_energy_model_delta_def seed_ioreport_def scoped_def drop_after_def Let_def
        split: prod.splits sum.splits if_splits)
  then show ?thesis by simp
next
  case (Some handles)
  have loop: "1000 * deltas_uj (delta_loop io arr [0..CFArrayGetCount io arr v - 1] v []) \<le> channels_nj io arr v" for arr v
    using delta_loop_nj [of io arr "[0..CFArrayGetCount io arr v - 1]" v "[]"] by (simp add: channels_nj_def)
  show ?thesis
    using assms Some loop
    by (auto simp: sample_energy_model_delta_def read_ioreport_delta_def reported_nj_def Let_def
        split: prod.splits sum.splits if_splits)
qed

lemma sample_keeps_timestamp:
  "sample_energy_model_delta io p w = ((p', res), w') \<Longrightarrow>
   ap_last_observed_at_ns p' = ap_last_observed_at_ns p \<and> ap_idle_power_uw p' = ap_idle_power_uw p"
  by (auto simp: sample_energy_model_delta_def seed_ioreport_def read_ioreport_delta_def scoped_def drop_after_def Let_def
      split: option.splits prod.splits sum.splits if_splits)

text \<open>A window of less power uses at most as much energy.\<close>

lemma window_energy_uj_mono: "p \<le> q \<Longrightarrow> window_energy_uj p w \<le> window_energy_uj q w"
proof -
  assume "p \<le> q"
  then have pq: "unat p \<le> unat q" by (simp add: word_le_nat_alt)
  have "min (unat p * (unat w mod 1000000000)) u64_max div 1000000000
      \<le> min (unat q * (unat w mod 1000000000)) u64_max div 1000000000"
    by (rule div_le_mono, rule min.mono) (simp_all add: pq)
  moreover have "unat p * (unat w div 1000000000) \<le> unat q * (unat w div 1000000000)" by (simp add: pq)
  ultimately show ?thesis
    unfolding word_le_nat_alt unat_window_energy_uj by (intro min.mono add_mono) simp_all
qed

text \<open>The nanojoules IOReport reports over a run of ticks.\<close>

fun reported_run_nj :: "'w ioreport_ops \<Rightarrow> host list \<Rightarrow> AppleSiliconProvider \<times> 'w \<Rightarrow> nat" where
  "reported_run_nj io [] pw = 0"
| "reported_run_nj io (h # hs) pw =
     reported_nj io pw + reported_run_nj io hs (fst (apple_sample_power_state io h pw))"

text \<open>The loop's previous snapshot carries the time of the provider's previous sample.\<close>

definition clocks_agree :: "(AppleSiliconProvider \<times> 'w, 't) sampling_state \<Rightarrow> bool" where
  "clocks_agree s \<longleftrightarrow>
     (case previous_snapshot s of
        None \<Rightarrow> True
      | Some prev \<Rightarrow> snap_observed_at_ns prev = ap_last_observed_at_ns (fst (sl_provider s)))"

lemma apple_ops_simps [simp]:
  "trait_sample_power_state (apple_ops sm io) = apple_sample_power_state io"
  by (simp add: apple_ops_def)

lemma apple_tick_provider:
  "sl_provider (fst (sampling_tick sm (apple_ops sm io) h s))
     = fst (apple_sample_power_state io h (sl_provider s))"
  by (simp add: sampling_tick_def Let_def split: prod.split sum.split option.split)

lemma apple_tick_clocks: "clocks_agree (fst (sampling_tick sm (apple_ops sm io) h s))"
  by (auto simp: sampling_tick_def clocks_agree_def apple_sample_power_state_def Let_def
      split: prod.splits sum.splits option.splits)

lemma apple_gap_energy:
  "unat (window_energy_uj (power_over_gap_uw total_uj (apple_gap_ns p t)) (apple_gap_ns p t)) \<le> unat total_uj"
  by (rule window_energy_power_over_gap_le)

lemma burst_le: "baseline_burst_power_uw a i \<le> a"
  by (simp add: word_le_nat_alt u64_nat)

lemma apple_billed_le:
  assumes "snap_observed_at_ns prev = ap_last_observed_at_ns p"
  shows "unat (window_energy_uj
      (baseline_burst_power_uw (power_over_gap_uw total_uj (apple_gap_ns p t)) idle)
      (sat_sub t (snap_observed_at_ns prev))) \<le> unat total_uj"
proof (cases "ap_last_observed_at_ns p = 0")
  case True
  then have "power_over_gap_uw total_uj (apple_gap_ns p t) = 0" by (simp add: apple_gap_ns_def)
  then show ?thesis
    by (simp add: unat_window_energy_uj baseline_burst_power_uw_def sat_sub_def)
next
  case False
  then have "sat_sub t (snap_observed_at_ns prev) = apple_gap_ns p t"
    using assms by (simp add: apple_gap_ns_def)
  then show ?thesis
    using window_energy_uj_mono [OF burst_le] apple_gap_energy
    by (metis order_trans word_le_nat_alt)
qed

lemma apple_tick_billed:
  assumes "clocks_agree s"
  shows "1000 * heartbeat_uj (snd (sampling_tick sm (apple_ops sm io) h s)) \<le> reported_nj io (sl_provider s)"
proof -
  obtain p w where pw: "sl_provider s = (p, w)" by fastforce
  obtain p' res w' where d: "sample_energy_model_delta io p w = ((p', res), w')" by (metis surj_pair)
  have keep: "ap_last_observed_at_ns p' = ap_last_observed_at_ns p"
    using sample_keeps_timestamp [OF d] by simp
  show ?thesis
  proof (cases res)
    case (Inl err)
    then show ?thesis by (simp add: sampling_tick_def apple_sample_power_state_def pw d Let_def)
  next
    case (Inr ds)
    have le: "1000 * unat (sum_energy_uj ds) \<le> reported_nj io (p, w)"
      using sample_reports_nj [OF d [unfolded Inr]] by (simp add: unat_sum_energy_uj min_def)
    show ?thesis
    proof (cases "previous_snapshot s")
      case (Some prev)
      then have "snap_observed_at_ns prev = ap_last_observed_at_ns p'"
        using assms pw keep by (simp add: clocks_agree_def)
      from order_trans [OF mult_le_mono2 [OF apple_billed_le [OF this]] le] show ?thesis
        by (simp add: sampling_tick_def apple_sample_power_state_def pw d Inr Some Let_def)
    qed (simp add: sampling_tick_def apple_sample_power_state_def pw d Inr Let_def)
  qed
qed

lemma apple_run_billed:
  "clocks_agree s \<Longrightarrow>
   1000 * sum_list (map heartbeat_uj (snd (sampling_run sm (apple_ops sm io) hs s)))
     \<le> reported_run_nj io hs (sl_provider s)"
proof (induction hs arbitrary: s)
  case (Cons h hs)
  obtain s1 b where tick: "sampling_tick sm (apple_ops sm io) h s = (s1, b)" by fastforce
  have "1000 * heartbeat_uj b \<le> reported_nj io (sl_provider s)"
    using apple_tick_billed [OF Cons.prems, of sm io h] by (simp add: tick)
  moreover have "clocks_agree s1" using apple_tick_clocks [of sm io h s] by (simp add: tick)
  moreover have "sl_provider s1 = fst (apple_sample_power_state io h (sl_provider s))"
    using apple_tick_provider [of sm io h s] by (simp add: tick)
  ultimately show ?case
    using Cons.IH [of s1] by (simp add: tick add_mult_distrib2 split_beta)
qed simp

text \<open>The debug assertion never fires, so a debug build behaves like a release build.\<close>

lemma debug_assert_holds:
  "apple_debug_assert (power_over_gap_uw total_uj (apple_gap_ns p t)) (apple_gap_ns p t) total_uj"
proof -
  have "unat total_uj \<le> unat (sat_add total_uj 1)"
    using unat_u64_le [of total_uj] by (simp add: u64_nat min_def)
  then show ?thesis
    using apple_gap_energy by (auto simp: apple_debug_assert_def word_le_nat_alt intro: order_trans)
qed

lemma debug_build_agrees: "apple_sample_power_state_debug io h pw = Finished (apple_sample_power_state io h pw)"
  by (simp add: apple_sample_power_state_debug_def apple_sample_power_state_def debug_assert_holds Let_def
      split: prod.split sum.split)

section \<open>Properties\<close>

text \<open>
  C31.  A channel is classified as a GPU or ANE energy channel exactly when, ignoring ASCII
  case, its group is \<open>energy model\<close> and its name starts with, or its subgroup contains,
  \<open>gpu\<close> or \<open>ane\<close>.  The byte-wise comparisons agree with prefix and substring of the
  lower-cased texts on every input, shorter ones and non-ASCII ones included.
\<close>

theorem channel_classifier_spec:
  "is_gpu_or_ane_energy_channel grp subgroup name \<longleftrightarrow>
     lower grp = ''energy model''
     \<and> (prefix ''gpu'' (lower name) \<or> prefix ''ane'' (lower name)
        \<or> sublist ''gpu'' (lower subgroup) \<or> sublist ''ane'' (lower subgroup))"
proof -
  have "lower ''GPU'' = ''gpu''" "lower ''ANE'' = ''ane''" "lower ENERGY_MODEL_GROUP = ''energy model''"
    by (simp_all add: to_ascii_lowercase_def ENERGY_MODEL_GROUP_def Let_def char_of_def bit_numeral_rec bit_0)
  then show ?thesis
    by (simp only: is_gpu_or_ane_energy_channel_def eq_ignore_ascii_case_iff starts_with_iff contains_iff)
       simp
qed

text \<open>
  C22.  A run of the sampling loop over the Apple provider bills at most the energy IOReport
  reported, whatever fails in between: a thousand times the micro-joules of its heartbeats is
  at most the sum of the raw nanojoules that the channels of IOReport's sample deltas reported
  during the run.  And the debug assertion of the sampler never fires: in every state a debug
  build of the method finishes with what the release build returns.
\<close>

theorem apple_run_bills_at_most_reported:
  "1000 * sum_list (map heartbeat_uj (snd (sampling_run sm (apple_ops sm io) hs (sampling_start (p, w) r))))
     \<le> reported_run_nj io hs (p, w)
   \<and> apple_sample_power_state_debug io h pw = Finished (apple_sample_power_state io h pw)"
  using apple_run_billed [of "sampling_start (p, w) r" sm io hs] debug_build_agrees [of io h pw]
  by (simp add: clocks_agree_def sampling_start_def)

text \<open>A small IOReport for the witnesses: consecutive references, the owned ones in a multiset.\<close>

definition small_ioreport :: "(u64 \<times> c_ref multiset) ioreport_ops" where
  "small_ioreport =
     \<lparr>CFRelease = (\<lambda>x (n, o'). (n, o' - {#x#})),
      CFStringCreateWithCString = (\<lambda>t (n, o'). (n, (n + 1, o' + created n))),
      CFStringGetLength = (\<lambda>x w. 3), CFStringGetMaximumSizeForEncoding = (\<lambda>n. 3 * n),
      CFStringGetCString = (\<lambda>x buffer w. (1, ''GPU'' @ drop 3 buffer)),
      CFArrayGetCount = (\<lambda>a w. 1), CFArrayGetValueAtIndex = (\<lambda>a i w. 1000),
      CFDictionaryGetValue = (\<lambda>d k w. 1001),
      IOReportCopyChannelsInGroup = (\<lambda>g (n, o'). (n, (n + 1, o' + created n))),
      IOReportChannelGetGroup = (\<lambda>c w. 1002), IOReportChannelGetSubGroup = (\<lambda>c w. 1003),
      IOReportChannelGetChannelName = (\<lambda>c w. 1004), IOReportChannelGetUnitLabel = (\<lambda>c w. 1005),
      IOReportCreateSubscription = (\<lambda>c (n, o'). (n, (n + 1, o' + created n))),
      IOReportCreateSamples = (\<lambda>s (n, o'). (n, (n + 1, o' + created n))),
      IOReportCreateSamplesDelta = (\<lambda>a b (n, o'). (n, (n + 1, o' + created n))),
      IOReportSimpleGetIntegerValue = (\<lambda>s w. 5999)\<rparr>"

lemma small_ioreport_ownership: "ioreport_ownership small_ioreport snd"
  by (simp add: ioreport_ownership_def cf_create_rule_def small_ioreport_def split: prod.split)

text \<open>
  Three ticks, one second apart: the first seeds the sampler, the other two see 5999
  nanojoules each and bill their whole micro-joules.
\<close>

definition clock_host :: "u128 \<Rightarrow> host" where
  "clock_host now =
     \<lparr>host_env_var = (\<lambda>v. Err ''environment variable not found''),
      host_read_to_string = (\<lambda>f. Err ''No such file or directory (os error 2)''),
      host_read_dir = (\<lambda>d. Err ''No such file or directory (os error 2)''),
      host_process_id = 1, host_now = Some now\<rparr>"

lemma small_ioreport_ops [simp]:
  "CFRelease small_ioreport x (n, o') = (n, o' - {#x#})"
  "CFStringCreateWithCString small_ioreport t (n, o') = (n, (n + 1, o' + created n))"
  "CFArrayGetCount small_ioreport a v = 1" "CFArrayGetValueAtIndex small_ioreport a i v = 1000"
  "CFDictionaryGetValue small_ioreport d k v = 1001" "IOReportChannelGetChannelName small_ioreport c v = 1004"
  "IOReportCopyChannelsInGroup small_ioreport g (n, o') = (n, (n + 1, o' + created n))"
  "IOReportCreateSubscription small_ioreport c (n, o') = (n, (n + 1, o' + created n))"
  "IOReportCreateSamples small_ioreport s (n, o') = (n, (n + 1, o' + created n))"
  "IOReportCreateSamplesDelta small_ioreport a b (n, o') = (n, (n + 1, o' + created n))"
  "IOReportSimpleGetIntegerValue small_ioreport s v = 5999"
  "cfstring_to_string small_ioreport 1004 v = Ok ''GPU''"
  by (simp_all add: cfstring_to_string_def small_ioreport_def CStr_from_ptr_def to_string_lossy_ascii)

lemmas small_ioreport_run = apple_sample_power_state_def sample_energy_model_delta_def seed_ioreport_def
  read_ioreport_delta_def cf_dictionary_array_def cfstring_new_def CString_new_def ENERGY_MODEL_GROUP_def
  IOREPORT_CHANNELS_KEY_def scoped_def drop_after_def clock_host_def apple_new_def apple_with_idle_power_uw_def Let_def

theorem apple_run_bills_at_most_reported_witness:
  "1000 * sum_list (map heartbeat_uj (snd (sampling_run btree_skip_map (apple_ops btree_skip_map small_ioreport)
       [clock_host 1000000000, clock_host 2000000000, clock_host 3000000000]
       (sampling_start (apple_new ''M4'', (1, {#})) (registry_new btree_skip_map))))) \<le> 11998
   \<and> sum_list (map heartbeat_uj (snd (sampling_run btree_skip_map (apple_ops btree_skip_map small_ioreport)
       [clock_host 1000000000, clock_host 2000000000, clock_host 3000000000]
       (sampling_start (apple_new ''M4'', (1, {#})) (registry_new btree_skip_map))))) = 10"
proof
  have "reported_run_nj small_ioreport [clock_host 1000000000, clock_host 2000000000, clock_host 3000000000]
         (apple_new ''M4'', (1, {#})) = 11998"
    by (simp add: small_ioreport_run reported_nj_def channels_nj_def channel_nj_def)
  then show "1000 * sum_list (map heartbeat_uj (snd (sampling_run btree_skip_map (apple_ops btree_skip_map small_ioreport)
       [clock_host 1000000000, clock_host 2000000000, clock_host 3000000000]
       (sampling_start (apple_new ''M4'', (1, {#})) (registry_new btree_skip_map))))) \<le> 11998"
    using apple_run_bills_at_most_reported [THEN conjunct1] by metis
  show "sum_list (map heartbeat_uj (snd (sampling_run btree_skip_map (apple_ops btree_skip_map small_ioreport)
       [clock_host 1000000000, clock_host 2000000000, clock_host 3000000000]
       (sampling_start (apple_new ''M4'', (1, {#})) (registry_new btree_skip_map))))) = 10"
    by (simp add: small_ioreport_run sampling_tick_def sampling_start_def apple_ops_def now_ns_or_def u64_try_from_def
        unat_window_energy_uj unat_baseline_burst_power_uw unat_power_over_gap_uw sum_energy_uj_def NJ_PER_UJ_def
        apple_gap_ns_def sat_sub_def sat_add_def)
qed

text \<open>
  C20.  References are balanced over any history of samples: whatever the calls return, the
  references owned afterwards are those from before plus exactly the handles the provider
  keeps, and dropping the provider gives these back.  Channel discovery keeps none.
\<close>

theorem apple_references_balanced:
  assumes "ioreport_ownership io owned"
    and "sample_history io n (apple_with_idle_power_uw sig idle) w = (p', w')"
  shows "owned w' = owned w + held p' \<and> owned (apple_drop io p' w') = owned w
    \<and> owned (snd (discover_gpu_ane_channels io p' w')) = owned w'"
proof -
  have "owned w = owned w + held (apple_with_idle_power_uw sig idle)"
    by (simp add: held_def apple_with_idle_power_uw_def)
  from sample_history_owned [OF assms(1) this assms(2)] have "owned w' = owned w + held p'" .
  then show ?thesis
    using apple_drop_owned [OF assms(1)] discover_owned [OF assms(1)] by blast
qed

theorem apple_references_balanced_witness:
  "snd (apple_drop small_ioreport (fst (sample_history small_ioreport 3 (apple_with_idle_power_uw ''M4'' 0) (1, {#})))
          (snd (sample_history small_ioreport 3 (apple_with_idle_power_uw ''M4'' 0) (1, {#})))) = {#}"
  using apple_references_balanced [OF small_ioreport_ownership surjective_pairing, of 3 "''M4''" 0 "(1, {#})"]
  by simp

end
