(* ===== verification/Canonical_Json.thy ===== *)
theory Canonical_Json
  imports Prelude Ordered_Map "HOL-Library.List_Lexorder" "HOL-Library.Char_ord"
begin

text \<open>
  Canonical JSON, \<open>canonicalize_value\<close> and \<open>canonical_json\<close> of \<open>src/core/signer.rs\<close>.  A
  \<open>serde_json::Value\<close> is a tree whose objects hold their entries in iteration order.  The
  crate \<open>serde_json\<close> is not part of the repository: inserting into its \<open>Map\<close> is a
  parameter with one law, the locale \<open>json_map\<close>, which both of its map implementations
  satisfy (the ordered one and, with the feature \<open>preserve_order\<close>, the insertion-ordered
  one), and the conversions to a value and to bytes are a record of functions.

  Strings are compared bytewise, which is the lexicographic order on lists of characters.
\<close>

section \<open>Values\<close>

datatype number = PosInt u64 | NegInt i64 | Float u64

datatype Value =
    Null
  | Bool bool
  | Number number
  | String string
  | Array "Value list"
  | Object "(string \<times> Value) list"

type_synonym json_entries = "(string \<times> Value) list"

locale json_map =
  fixes map_insert :: "json_entries \<Rightarrow> string \<Rightarrow> Value \<Rightarrow> json_entries"
  assumes insert_above:
    "(\<And>k'. k' \<in> fst ` set m \<Longrightarrow> k' < k) \<Longrightarrow> map_insert m k v = m @ [(k, v)]"

text \<open>The insertion-ordered map: a present key keeps its place, a new one goes to the end.\<close>

fun index_insert :: "('k \<times> 'v) list \<Rightarrow> 'k \<Rightarrow> 'v \<Rightarrow> ('k \<times> 'v) list" where
  "index_insert [] k v = [(k, v)]"
| "index_insert ((k', v') # m) k v = (if k = k' then (k', v) # m else (k', v') # index_insert m k v)"

lemma index_insert_append: "k \<notin> fst ` set m \<Longrightarrow> index_insert m k v = m @ [(k, v)]"
  by (induction m k v rule: index_insert.induct) auto

interpretation btree_json: json_map bt_insert
  by unfold_locales (rule bt_insert_append)

interpretation index_json: json_map index_insert
  by unfold_locales (metis index_insert_append less_irrefl)

section \<open>Canonicalization\<close>

text \<open>
  Objects are rebuilt in key order (a stable sort of the entries by key, then insertion
  one by one), arrays keep their order, everything else is kept.
\<close>

lemma size_entry: "(k, v) \<in> set m \<Longrightarrow> size v < size (Object m)"
  by (induction m) auto

function canonicalize_value ::
  "(json_entries \<Rightarrow> string \<Rightarrow> Value \<Rightarrow> json_entries) \<Rightarrow> Value \<Rightarrow> Value" where
  "canonicalize_value ins (Object m) =
     (let sorted_entries = sort_key fst m
      in Object (foldl (\<lambda>canonical kv. ins canonical (fst kv) (canonicalize_value ins (snd kv))) [] sorted_entries))"
| "canonicalize_value ins (Array items) = Array (map (canonicalize_value ins) items)"
| "canonicalize_value ins Null = Null"
| "canonicalize_value ins (Bool b) = Bool b"
| "canonicalize_value ins (Number n) = Number n"
| "canonicalize_value ins (String s) = String s"
  by pat_completeness auto
termination
proof (relation "measure (size \<circ> snd)")
  fix ins :: "json_entries \<Rightarrow> string \<Rightarrow> Value \<Rightarrow> json_entries" and m x :: json_entries and kv
  assume "x = sort_key fst m" and "kv \<in> set x"
  then have "(fst kv, snd kv) \<in> set m" by simp
  from size_entry [OF this] show "((ins, snd kv), ins, Object m) \<in> measure (size \<circ> snd)" by simp
next
  fix ins :: "json_entries \<Rightarrow> string \<Rightarrow> Value \<Rightarrow> json_entries" and items and v :: Value
  assume "v \<in> set items"
  then have "size v < Suc (size_list size items)" by (induction items) auto
  then show "((ins, v), ins, Array items) \<in> measure (size \<circ> snd)" by simp
qed simp

declare canonicalize_value.simps(1) [simp del]

text \<open>A value of the program: no object has a key twice, negative integers are negative.\<close>

fun wf_value :: "Value \<Rightarrow> bool" where
  "wf_value (Object m) \<longleftrightarrow> distinct (map fst m) \<and> (\<forall>v \<in> snd ` set m. wf_value v)"
| "wf_value (Array items) \<longleftrightarrow> (\<forall>v \<in> set items. wf_value v)"
| "wf_value (Number (NegInt i)) \<longleftrightarrow> sint i < 0"
| "wf_value _ \<longleftrightarrow> True"

text \<open>No floating-point number anywhere, as in all payloads of the program.\<close>

fun integral :: "Value \<Rightarrow> bool" where
  "integral (Number (Float x)) \<longleftrightarrow> False"
| "integral (Array items) \<longleftrightarrow> (\<forall>v \<in> set items. integral v)"
| "integral (Object m) \<longleftrightarrow> (\<forall>v \<in> snd ` set m. integral v)"
| "integral _ \<longleftrightarrow> True"

section \<open>The content of a value\<close>

text \<open>
  What can be observed of a value without looking at the order of an object's entries:
  following a path of keys and indices, the shape found there.
\<close>

datatype path_step = Key string | Index nat

datatype shape = Scalar Value | ArrayOf nat | ObjectOf "string set"

fun shape_of :: "Value \<Rightarrow> shape" where
  "shape_of (Object m) = ObjectOf (fst ` set m)"
| "shape_of (Array items) = ArrayOf (length items)"
| "shape_of v = Scalar v"

fun probe :: "Value \<Rightarrow> path_step list \<Rightarrow> shape option" where
  "probe v [] = Some (shape_of v)"
| "probe (Object m) (Key k # path) = (case map_of m k of None \<Rightarrow> None | Some v \<Rightarrow> probe v path)"
| "probe (Array items) (Index i # path) = (if i < length items then probe (items ! i) path else None)"
| "probe _ _ = None"

definition same_content :: "Value \<Rightarrow> Value \<Rightarrow> bool" where
  "same_content v w \<longleftrightarrow> (\<forall>path. probe v path = probe w path)"

lemma same_content_refl [simp]: "same_content v v"
  by (simp add: same_content_def)

lemma same_content_sym: "same_content v w \<Longrightarrow> same_content w v"
  by (simp add: same_content_def)

lemma same_content_trans: "same_content u v \<Longrightarrow> same_content v w \<Longrightarrow> same_content u w"
  by (simp add: same_content_def)

lemma same_content_shape: "same_content v w \<Longrightarrow> shape_of v = shape_of w"
  unfolding same_content_def by (metis option.inject probe.simps(1))

lemma same_content_key:
  assumes "same_content (Object m) (Object n)" and "map_of m k = Some v"
  shows "\<exists>w. map_of n k = Some w \<and> same_content v w"
proof -
  have eq: "probe (Object m) (Key k # path) = probe (Object n) (Key k # path)" for path
    using assms(1) by (simp only: same_content_def)
  obtain w where w: "map_of n k = Some w"
    using eq [of "[]"] assms(2) by (auto split: option.splits)
  then show ?thesis using eq assms(2) by (simp add: same_content_def)
qed

lemma same_content_index:
  assumes "same_content (Array xs) (Array ys)" and "i < length xs"
  shows "i < length ys \<and> same_content (xs ! i) (ys ! i)"
proof -
  have "length ys = length xs" using same_content_shape [OF assms(1)] by simp
  moreover have "probe (Array xs) (Index i # path) = probe (Array ys) (Index i # path)" for path
    using assms(1) by (simp only: same_content_def)
  ultimately show ?thesis using assms(2) by (simp add: same_content_def)
qed

text \<open>Being free of floating-point numbers is a matter of content.\<close>

lemma integral_probe:
  "wf_value v \<Longrightarrow> integral v \<longleftrightarrow> (\<forall>path x. probe v path \<noteq> Some (Scalar (Number (Float x))))"
proof (induction v rule: integral.induct)
  case (1 x)
  have "probe (Number (Float x)) [] = Some (Scalar (Number (Float x)))" by simp
  then show ?case by (metis integral.simps(1))
next
  case (2 items)
  have "(\<forall>path x. probe (Array items) path \<noteq> Some (Scalar (Number (Float x))))
      \<longleftrightarrow> (\<forall>i < length items. \<forall>path x. probe (items ! i) path \<noteq> Some (Scalar (Number (Float x))))"
    (is "?l \<longleftrightarrow> ?r")
  proof
    assume ?l
    then have "probe (Array items) (Index i # path) \<noteq> Some (Scalar (Number (Float x)))" for i path x by blast
    then show ?r by (metis probe.simps(3))
  next
    assume r: ?r
    show ?l
    proof (intro allI)
      fix path x
      show "probe (Array items) path \<noteq> Some (Scalar (Number (Float x)))"
        using r by (cases path; cases "hd path") auto
    qed
  qed
  with 2 show ?case by (auto simp: all_set_conv_all_nth)
next
  case (3 m)
  have entry: "\<exists>k. map_of m k = Some v" if "v \<in> snd ` set m" for v
    using that 3(2) by auto
  have "(\<forall>path x. probe (Object m) path \<noteq> Some (Scalar (Number (Float x))))
      \<longleftrightarrow> (\<forall>k v. map_of m k = Some v \<longrightarrow> (\<forall>path x. probe v path \<noteq> Some (Scalar (Number (Float x)))))"
    (is "?l \<longleftrightarrow> ?r")
  proof
    assume l: ?l
    show ?r
    proof (intro allI impI)
      fix k v path x
      assume "map_of m k = Some v"
      then have "probe (Object m) (Key k # path) = probe v path" by simp
      with l show "probe v path \<noteq> Some (Scalar (Number (Float x)))" by metis
    qed
  next
    assume r: ?r
    show ?l
    proof (intro allI)
      fix path x
      show "probe (Object m) path \<noteq> Some (Scalar (Number (Float x)))"
        using r by (cases path; cases "hd path") (auto split: option.split)
    qed
  qed
  moreover have "snd ` set m = {v. \<exists>k. map_of m k = Some v}"
    using entry by (force dest: map_of_SomeD)
  ultimately show ?case using 3 by auto
qed (auto elim: probe.elims)

lemma same_content_integral:
  "same_content v w \<Longrightarrow> wf_value v \<Longrightarrow> wf_value w \<Longrightarrow> integral w \<Longrightarrow> integral v"
  by (simp add: integral_probe same_content_def)

section \<open>Canonical forms\<close>

fun canonical :: "Value \<Rightarrow> bool" where
  "canonical (Object m) \<longleftrightarrow> sorted_wrt (<) (map fst m) \<and> (\<forall>v \<in> snd ` set m. canonical v)"
| "canonical (Array items) \<longleftrightarrow> (\<forall>v \<in> set items. canonical v)"
| "canonical _ \<longleftrightarrow> True"

text \<open>A canonical value is determined by its content.\<close>

lemma same_keys_sorted:
  assumes "sorted_wrt (<) (map fst m)" and "sorted_wrt (<) (map fst n)" and "fst ` set m = fst ` set n"
  shows "map fst m = map fst (n :: json_entries)"
  using assms by (intro strict_sorted_equal) simp_all

lemma canonical_unique:
  "canonical v \<Longrightarrow> canonical w \<Longrightarrow> same_content v w \<Longrightarrow> v = w"
proof (induction v arbitrary: w)
  case (Array xs)
  obtain ys where w: "w = Array ys"
    using same_content_shape [OF Array.prems(3)] by (cases w) auto
  have "length xs = length ys" using same_content_shape [OF Array.prems(3)] by (simp add: w)
  moreover have "xs ! i = ys ! i" if "i < length xs" for i
    using Array that same_content_index [of xs ys i] by (auto simp: w)
  ultimately show ?case by (simp add: w list_eq_iff_nth_eq)
next
  case (Object m)
  obtain n where w: "w = Object n"
    using same_content_shape [OF Object.prems(3)] by (cases w) auto
  have keys: "map fst m = map fst n"
    using Object.prems same_content_shape [OF Object.prems(3)]
    by (intro same_keys_sorted) (simp_all add: w)
  have dist: "distinct (map fst m)" "distinct (map fst n)"
    using Object.prems by (simp_all add: w strict_sorted_iff)
  have len: "length m = length n" by (rule map_eq_imp_length_eq [OF keys])
  have "m ! i = n ! i" if i: "i < length m" for i
  proof -
    have k: "fst (m ! i) = fst (n ! i)" using keys i len by (metis nth_map)
    have m: "map_of m (fst (m ! i)) = Some (snd (m ! i))" using dist(1) i by (simp add: map_of_is_SomeI)
    have n: "map_of n (fst (m ! i)) = Some (snd (n ! i))" using dist(2) i len k by (simp add: map_of_is_SomeI)
    have "same_content (snd (m ! i)) (snd (n ! i))"
      using same_content_key [OF Object.prems(3) [unfolded w] m] n by simp
    moreover have "canonical (snd (m ! i))" "canonical (snd (n ! i))"
      using Object.prems(1,2) i len by (auto simp: w)
    moreover have "m ! i \<in> set m" "snd (m ! i) \<in> Basic_BNFs.snds (m ! i)"
      using i by (simp_all add: snds.simps prod_eq_iff)
    ultimately have "snd (m ! i) = snd (n ! i)" using Object.IH by blast
    with k show ?thesis by (simp add: prod_eq_iff)
  qed
  then show ?case using len by (simp add: w list_eq_iff_nth_eq)
qed (metis same_content_shape shape.inject(1) shape_of.simps shape.distinct(1,3) Value.exhaust)+

context json_map
begin

lemma foldl_insert_sorted:
  "sorted_wrt (<) (map fst es) \<Longrightarrow> (\<And>k e. k \<in> fst ` set acc \<Longrightarrow> e \<in> set es \<Longrightarrow> k < fst e) \<Longrightarrow>
   foldl (\<lambda>canonical kv. map_insert canonical (fst kv) (f (snd kv))) acc es
     = acc @ map (\<lambda>(k, v). (k, f v)) es"
proof (induction es arbitrary: acc)
  case (Cons e es)
  have "map_insert acc (fst e) (f (snd e)) = acc @ [(fst e, f (snd e))]"
    using Cons.prems(2) by (intro insert_above) simp
  moreover have "foldl (\<lambda>canonical kv. map_insert canonical (fst kv) (f (snd kv)))
      (acc @ [(fst e, f (snd e))]) es = (acc @ [(fst e, f (snd e))]) @ map (\<lambda>(k, v). (k, f v)) es"
    using Cons.prems by (intro Cons.IH) auto
  ultimately show ?case by (simp add: case_prod_unfold)
qed simp

lemma canonicalize_Object:
  assumes "distinct (map fst m)"
  shows "canonicalize_value map_insert (Object m)
      = Object (map (\<lambda>(k, v). (k, canonicalize_value map_insert v)) (sort_key fst m))"
proof -
  have "sorted_wrt (<) (map fst (sort_key fst m))"
    using assms by (simp add: strict_sorted_iff distinct_map)
  then show ?thesis
    using foldl_insert_sorted [of "sort_key fst m" "[]" "canonicalize_value map_insert"]
    by (simp add: canonicalize_value.simps(1) Let_def)
qed

lemma map_of_canonical_entries:
  assumes "distinct (map fst m)"
  shows "map_of (map (\<lambda>(k, v). (k, f v)) (sort_key fst m)) k = map_option f (map_of m k)"
proof -
  have "map_of (sort_key fst m) = map_of m"
    using assms map_of_inject_set [of "sort_key fst m" m] by (simp add: distinct_map)
  then show ?thesis by (simp add: map_of_map)
qed

lemma wf_canonicalize:
  "wf_value v \<Longrightarrow> wf_value (canonicalize_value map_insert v) \<and> canonical (canonicalize_value map_insert v)"
proof (induction v)
  case (Object m)
  have d: "distinct (map fst m)" using Object.prems by simp
  have "wf_value (canonicalize_value map_insert v) \<and> canonical (canonicalize_value map_insert v)"
    if "(k, v) \<in> set m" for k v
    using that Object.prems by (intro Object.IH [of "(k, v)"]) (auto simp: snds.simps)
  moreover have "map fst (map (\<lambda>(k, v). (k, canonicalize_value map_insert v)) (sort_key fst m))
      = map fst (sort_key fst m)"
    by (simp add: case_prod_unfold comp_def)
  moreover have "sorted_wrt (<) (map fst (sort_key fst m))"
    using d by (simp add: strict_sorted_iff distinct_map)
  ultimately show ?case
    by (auto simp: canonicalize_Object [OF d] strict_sorted_iff simp del: map_map)
qed (auto split: number.splits)

lemma probe_canonicalize: "wf_value v \<Longrightarrow> probe (canonicalize_value map_insert v) path = probe v path"
proof (induction path arbitrary: v)
  case Nil
  then show ?case
    by (cases v) (force simp: canonicalize_Object image_iff)+
next
  case (Cons s path)
  show ?case
  proof (cases v)
    case (Object m)
    then have d: "distinct (map fst m)" using Cons.prems by simp
    have "wf_value x" if "map_of m k = Some x" for k x
      using that Cons.prems Object by (auto dest: map_of_SomeD)
    then show ?thesis
      using Cons.IH by (cases s) (simp_all add: Object canonicalize_Object [OF d] map_of_canonical_entries [OF d]
          split: option.split)
  next
    case (Array xs)
    then show ?thesis using Cons by (cases s) auto
  qed (cases s; simp)+
qed

lemma same_content_canonicalize: "wf_value v \<Longrightarrow> same_content (canonicalize_value map_insert v) v"
  by (simp add: same_content_def probe_canonicalize)

lemma canonicalize_eq_iff:
  assumes "wf_value v" and "wf_value w"
  shows "canonicalize_value map_insert v = canonicalize_value map_insert w \<longleftrightarrow> same_content v w"
proof
  assume "canonicalize_value map_insert v = canonicalize_value map_insert w"
  then show "same_content v w"
    using same_content_canonicalize assms by (metis same_content_sym same_content_trans)
next
  assume "same_content v w"
  then have "same_content (canonicalize_value map_insert v) (canonicalize_value map_insert w)"
    using same_content_canonicalize assms by (metis same_content_sym same_content_trans)
  then show "canonicalize_value map_insert v = canonicalize_value map_insert w"
    using wf_canonicalize assms canonical_unique by blast
qed

end

section \<open>Canonical bytes\<close>

text \<open>The crate's conversions, for payloads of type \<open>'a\<close>.\<close>

record 'a serde_json =
  to_value :: "'a \<Rightarrow> Value result"
  to_vec :: "Value \<Rightarrow> u8 list result"
  json_insert :: "json_entries \<Rightarrow> string \<Rightarrow> Value \<Rightarrow> json_entries"

definition canonical_json :: "'a serde_json \<Rightarrow> 'a \<Rightarrow> u8 list result" where
  "canonical_json js payload =
     (case to_value js payload of
        Inl err \<Rightarrow> Err err
      | Inr v \<Rightarrow>
          let canonical_value = canonicalize_value (json_insert js) v
          in (case to_vec js canonical_value of Inl err \<Rightarrow> Err err | Inr bytes \<Rightarrow> Ok bytes))"

text \<open>JSON text without floating-point numbers determines the value it was written from.\<close>

definition json_text_injective :: "(Value \<Rightarrow> u8 list result) \<Rightarrow> bool" where
  "json_text_injective write \<longleftrightarrow>
     (\<forall>v w bytes. wf_value v \<longrightarrow> integral v \<longrightarrow> wf_value w \<longrightarrow> integral w \<longrightarrow>
        write v = Ok bytes \<longrightarrow> write w = Ok bytes \<longrightarrow> v = w)"

lemma canonical_json_content:
  assumes "json_map (json_insert js)" and "json_text_injective (to_vec js)"
    and "to_value js p = Ok v" and "to_value js q = Ok w" and "wf_value v" and "wf_value w"
    and "canonical_json js p = Ok bytes" and "canonical_json js q = Ok bytes" and "integral v" and "integral w"
  shows "same_content v w"
proof -
  let ?c = "canonicalize_value (json_insert js)"
  have "to_vec js (?c v) = Ok bytes" "to_vec js (?c w) = Ok bytes"
    using assms(3,4,7,8) by (simp_all add: canonical_json_def Let_def split: sum.splits)
  moreover have "wf_value (?c v)" "wf_value (?c w)"
    using json_map.wf_canonicalize [OF assms(1)] assms(5,6) by simp_all
  moreover have "integral (?c v)" "integral (?c w)"
    using json_map.same_content_canonicalize [OF assms(1)] same_content_integral assms(5,6,9,10) calculation(3,4)
    by blast+
  ultimately have "?c v = ?c w" using assms(2) by (simp add: json_text_injective_def)
  then show ?thesis using json_map.canonicalize_eq_iff [OF assms(1,5,6)] by simp
qed

section \<open>Properties\<close>

text \<open>
  C10.  Canonicalization decides equality of content: two values have the same canonical
  form if and only if following any path of keys and indices finds the same in both.  The
  canonical form has strictly ascending keys in every object and the content of the
  original, canonicalizing again changes nothing, and it does not depend on which of the
  two map implementations is used to rebuild the objects.
\<close>

theorem canonicalize_decides_content:
  assumes "json_map ins" and "json_map ins'" and "wf_value v" and "wf_value w"
  shows "(canonicalize_value ins v = canonicalize_value ins w \<longleftrightarrow> same_content v w)
    \<and> canonical (canonicalize_value ins v) \<and> same_content (canonicalize_value ins v) v
    \<and> canonicalize_value ins (canonicalize_value ins v) = canonicalize_value ins v
    \<and> canonicalize_value ins' v = canonicalize_value ins v"
proof (intro conjI)
  show "canonicalize_value ins v = canonicalize_value ins w \<longleftrightarrow> same_content v w"
    by (rule json_map.canonicalize_eq_iff [OF assms(1,3,4)])
  have c: "wf_value (canonicalize_value ins v)" "canonical (canonicalize_value ins v)"
      "canonical (canonicalize_value ins' v)"
    using json_map.wf_canonicalize assms by blast+
  show "canonical (canonicalize_value ins v)" by (rule c(2))
  show same: "same_content (canonicalize_value ins v) v"
    by (rule json_map.same_content_canonicalize [OF assms(1,3)])
  show "canonicalize_value ins (canonicalize_value ins v) = canonicalize_value ins v"
    using json_map.canonicalize_eq_iff [OF assms(1) c(1) assms(3)] same by simp
  have "same_content (canonicalize_value ins' v) (canonicalize_value ins v)"
    using json_map.same_content_canonicalize assms same_content_sym same_content_trans by blast
  then show "canonicalize_value ins' v = canonicalize_value ins v"
    by (rule canonical_unique [OF c(3,2)])
qed

definition example_value :: Value where
  "example_value = Object [(''z'', Number (PosInt 1)), (''a'', Number (PosInt 2)),
     (''m'', Object [(''y'', Number (PosInt 3)), (''b'', Number (PosInt 4))])]"

theorem canonicalize_decides_content_witness:
  "canonical (canonicalize_value index_insert example_value)
   \<and> canonicalize_value bt_insert example_value = canonicalize_value index_insert example_value
   \<and> canonicalize_value index_insert example_value
       = Object [(''a'', Number (PosInt 2)),
                 (''m'', Object [(''b'', Number (PosInt 4)), (''y'', Number (PosInt 3))]),
                 (''z'', Number (PosInt 1))]"
proof -
  have "wf_value example_value" by (simp add: example_value_def)
  from canonicalize_decides_content [OF index_json.json_map_axioms btree_json.json_map_axioms this this]
  have "canonical (canonicalize_value index_insert example_value)"
    "canonicalize_value bt_insert example_value = canonicalize_value index_insert example_value"
    by simp_all
  moreover have "canonicalize_value index_insert example_value
       = Object [(''a'', Number (PosInt 2)),
                 (''m'', Object [(''b'', Number (PosInt 4)), (''y'', Number (PosInt 3))]),
                 (''z'', Number (PosInt 1))]"
    by (simp add: example_value_def canonicalize_value.simps Let_def)
  ultimately show ?thesis by simp
qed

end
