(* ===== verification/Json_Text.thy ===== *)
theory Json_Text
  imports Canonical_Json Host
begin

text \<open>
  JSON text without insignificant white space, as \<open>serde_json::to_vec\<close> writes it for values
  made of integers, strings, booleans, null, arrays and objects; a value with a
  floating-point number is refused.  The development needs of the crate's writer only that
  the text determines the value; this writer is an instance, so the assumption can be met
  by JSON itself.
\<close>

section \<open>Writing\<close>

definition hex_digit :: "nat \<Rightarrow> char" where
  "hex_digit d = (if d < 10 then char_of (48 + d) else char_of (87 + d))"

definition json_escape :: "char \<Rightarrow> string" where
  "json_escape c =
     (if c = CHR 0x22 then [CHR 0x5C, CHR 0x22]
      else if c = CHR 0x5C then [CHR 0x5C, CHR 0x5C]
      else if c = CHR 0x08 then [CHR 0x5C, CHR ''b'']
      else if c = CHR 0x09 then [CHR 0x5C, CHR ''t'']
      else if c = CHR 0x0A then [CHR 0x5C, CHR ''n'']
      else if c = CHR 0x0C then [CHR 0x5C, CHR ''f'']
      else if c = CHR 0x0D then [CHR 0x5C, CHR ''r'']
      else if of_char c < (32 :: nat)
      then [CHR 0x5C, CHR ''u'', CHR ''0'', CHR ''0'', hex_digit (of_char c div 16), hex_digit (of_char c mod 16)]
      else [c])"

definition json_string :: "string \<Rightarrow> string" where
  "json_string s = CHR 0x22 # concat (map json_escape s) @ [CHR 0x22]"

fun json_number :: "number \<Rightarrow> string" where
  "json_number (PosInt n) = show_nat (unat n)"
| "json_number (NegInt i) = show_int (sint i)"
| "json_number (Float x) = []"

fun comma_join :: "string list \<Rightarrow> string" where
  "comma_join [] = []"
| "comma_join [x] = x"
| "comma_join (x # y # ys) = x @ CHR '','' # comma_join (y # ys)"

function json_chars :: "Value \<Rightarrow> string" where
  "json_chars Null = ''null''"
| "json_chars (Bool b) = (if b then ''true'' else ''false'')"
| "json_chars (Number n) = json_number n"
| "json_chars (String s) = json_string s"
| "json_chars (Array items) = CHR ''['' # comma_join (map json_chars items) @ '']''"
| "json_chars (Object m) =
     CHR ''{'' # comma_join (map (\<lambda>kv. json_string (fst kv) @ CHR '':'' # json_chars (snd kv)) m) @ ''}''"
  by pat_completeness auto
termination
proof (relation "measure size")
  fix items and v :: Value
  assume "v \<in> set items"
  then have "size v < Suc (size_list size items)" by (induction items) auto
  then show "(v, Array items) \<in> measure size" by simp
next
  fix m :: json_entries and kv
  assume "kv \<in> set m"
  then have "(fst kv, snd kv) \<in> set m" by simp
  from size_entry [OF this] show "(snd kv, Object m) \<in> measure size" by simp
qed simp

section \<open>The text determines the value\<close>

text \<open>A number ends where its digits end, so what follows a value must not be a digit.\<close>

definition is_digit :: "char \<Rightarrow> bool" where
  "is_digit c \<longleftrightarrow> to_digit c \<noteq> None"

definition delim :: "string \<Rightarrow> bool" where
  "delim r \<longleftrightarrow> r = [] \<or> \<not> is_digit (hd r)"

lemma delim_Cons [simp]: "delim (c # r) \<longleftrightarrow> \<not> is_digit c"
  by (simp add: delim_def)

lemma is_digit_chars [simp]:
  "\<not> is_digit (CHR '','')" "\<not> is_digit (CHR '']'')" "\<not> is_digit (CHR ''}'')" "\<not> is_digit (CHR '':'')"
  "\<not> is_digit (CHR ''-'')" "\<not> is_digit (CHR ''n'')" "\<not> is_digit (CHR ''t'')" "\<not> is_digit (CHR ''f'')"
  "\<not> is_digit (CHR 0x22)" "\<not> is_digit (CHR ''['')" "\<not> is_digit (CHR ''{'')"
  by (simp_all add: is_digit_def to_digit_def Let_def)

lemma digits_show_nat: "c \<in> set (show_nat n) \<Longrightarrow> is_digit c"
  using set_show_nat by (fastforce simp: is_digit_def)

lemma hd_show_nat: "is_digit (hd (show_nat n))"
  using digits_show_nat [of "hd (show_nat n)" n] by simp

lemma takeWhile_show_nat: "delim r \<Longrightarrow> takeWhile is_digit (show_nat n @ r) = show_nat n"
  using digits_show_nat by (cases r) (auto simp: takeWhile_append2)

lemma show_nat_prefix:
  assumes "show_nat n @ r = show_nat m @ r'" and "n \<le> u64_max" and "m \<le> u64_max" and "delim r" and "delim r'"
  shows "n = m \<and> r = r'"
proof -
  have "show_nat n = show_nat m"
    using takeWhile_show_nat [OF assms(4)] takeWhile_show_nat [OF assms(5)] assms(1) by metis
  then show ?thesis using show_nat_inj assms(1-3) by simp
qed

lemma json_number_prefix:
  assumes "json_number a @ r = json_number b @ r'" and "delim r" and "delim r'"
    and "wf_value (Number a)" and "wf_value (Number b)" and "integral (Number a)" and "integral (Number b)"
  shows "a = b \<and> r = r'"
proof -
  have neg: "nat (- sint i) \<le> u64_max" for i :: i64
    using sint_greater_eq [of i] by simp
  have hd: "show_nat n @ r \<noteq> CHR ''-'' # x" "CHR ''-'' # x \<noteq> show_nat n @ r" for n r x
    using hd_show_nat [of n] by (cases "show_nat n"; auto)+
  show ?thesis
  proof (cases a; cases b)
    fix i j
    assume a: "a = NegInt i" and b: "b = NegInt j"
    then have "sint i < 0" "sint j < 0" using assms(4,5) by simp_all
    moreover from this have "show_nat (nat (- sint i)) @ r = show_nat (nat (- sint j)) @ r'"
      using assms(1) by (simp add: a b show_int_def)
    from show_nat_prefix [OF this neg neg assms(2,3)]
    have "nat (- sint i) = nat (- sint j)" "r = r'" by simp_all
    ultimately show ?thesis by (simp add: a b eq_nat_nat_iff signed_word_eqI)
  next
    fix m n
    assume a: "a = PosInt m" and b: "b = PosInt n"
    then have "unat m = unat n \<and> r = r'"
      using show_nat_prefix [of "unat m" r "unat n" r'] assms(1-3) by simp
    then show ?thesis using word_eqI_unat [of m n] by (simp add: a b)
  qed (use assms hd in \<open>auto simp: show_int_def\<close>)
qed

lemma hex_digit_inj: "d < 16 \<Longrightarrow> e < 16 \<Longrightarrow> hex_digit d = hex_digit e \<Longrightarrow> d = e"
  by (auto simp: hex_digit_def split: if_splits dest: arg_cong [where f = "of_char :: char \<Rightarrow> nat"])

lemma json_escape_prefix: "json_escape c @ r = json_escape d @ r' \<Longrightarrow> c = d \<and> r = r'"
proof -
  assume eq: "json_escape c @ r = json_escape d @ r'"
  have "c = d" if "of_char c < (32 :: nat)" "of_char d < (32 :: nat)"
    "hex_digit (of_char c div 16) = hex_digit (of_char d div 16)"
    "hex_digit (of_char c mod 16) = hex_digit (of_char d mod 16)"
  proof -
    have "of_char c div 16 = (of_char d div 16 :: nat)" using that by (intro hex_digit_inj) simp_all
    moreover have "of_char c mod 16 = (of_char d mod 16 :: nat)" using that by (intro hex_digit_inj) simp_all
    ultimately have "of_char c = (of_char d :: nat)" by (metis div_mult_mod_eq)
    then show ?thesis by simp
  qed
  with eq show ?thesis by (simp add: json_escape_def split: if_splits)
qed

lemma json_escape_quote: "json_escape c @ r \<noteq> CHR 0x22 # r'"
  by (simp add: json_escape_def)

lemma json_escapes_prefix:
  "concat (map json_escape s) @ CHR 0x22 # r = concat (map json_escape t) @ CHR 0x22 # r' \<Longrightarrow> s = t \<and> r = r'"
proof (induction s arbitrary: t)
  case Nil
  then show ?case using json_escape_quote by (cases t) (simp_all, metis)
next
  case (Cons c s)
  show ?case
  proof (cases t)
    case Nil
    then show ?thesis using Cons.prems json_escape_quote by simp
  next
    case (Cons d t')
    then have "json_escape c @ concat (map json_escape s) @ CHR 0x22 # r
        = json_escape d @ concat (map json_escape t') @ CHR 0x22 # r'"
      using Cons.prems by simp
    note P = json_escape_prefix [OF this]
    then have "s = t' \<and> r = r'" using Cons.IH by blast
    with P show ?thesis by (simp add: \<open>t = d # t'\<close>)
  qed
qed

lemma json_string_prefix: "json_string s @ r = json_string t @ r' \<Longrightarrow> s = t \<and> r = r'"
  unfolding json_string_def by (rule json_escapes_prefix) simp

text \<open>A comma-separated list up to its closing bracket, whatever its elements are.\<close>

lemma comma_join_Cons: "comma_join (x # xs) = x @ (if xs = [] then [] else CHR '','' # comma_join xs)"
  by (cases xs) simp_all

lemma comma_join_prefix:
  assumes elem: "\<And>x y r r'. x \<in> set xs \<Longrightarrow> y \<in> A \<Longrightarrow> delim r \<Longrightarrow> delim r' \<Longrightarrow> f x @ r = f y @ r' \<Longrightarrow> x = y \<and> r = r'"
    and start: "\<And>x. x \<in> set xs \<union> A \<Longrightarrow> \<exists>a u. f x = a # u \<and> a \<noteq> c"
    and c: "c \<noteq> CHR '',''" "\<not> is_digit c"
  shows "set ys \<subseteq> A \<Longrightarrow> comma_join (map f xs) @ c # r = comma_join (map f ys) @ c # r' \<Longrightarrow> xs = ys \<and> r = r'"
  using elem start
proof (induction xs arbitrary: ys)
  case Nil
  then show ?case
  proof (cases ys)
    case (Cons y ys')
    then have "y \<in> set [] \<union> A" using Nil.prems(1) by simp
    from Nil.prems(4) [OF this] obtain a u where "f y = a # u" "a \<noteq> c" by blast
    then show ?thesis using Nil.prems(2) by (simp add: Cons comma_join_Cons)
  qed simp
next
  case (Cons x xs)
  obtain a u where x: "f x = a # u" "a \<noteq> c" using Cons.prems(4) [of x] by auto
  show ?case
  proof (cases ys)
    case Nil
    then show ?thesis using Cons.prems(2) x by (simp add: comma_join_Cons)
  next
    case ys: (Cons y ys')
    let ?tail = "\<lambda>zs r. (if zs = [] then [] else CHR '','' # comma_join (map f zs)) @ c # r"
    have "f x @ ?tail xs r = f y @ ?tail ys' r'"
      using Cons.prems(2) by (simp add: ys comma_join_Cons)
    moreover have "delim (?tail xs r)" "delim (?tail ys' r')" using c(2) by simp_all
    moreover have "x \<in> set (x # xs)" "y \<in> A" using Cons.prems(1) by (simp_all add: ys)
    ultimately have xy: "x = y" and tails: "?tail xs r = ?tail ys' r'"
      using Cons.prems(3) by blast+
    show ?thesis
    proof (cases "xs = [] \<or> ys' = []")
      case True
      then show ?thesis using tails c(1) by (auto simp: xy ys split: if_splits)
    next
      case False
      then have "comma_join (map f xs) @ c # r = comma_join (map f ys') @ c # r'" using tails by simp
      moreover have "set ys' \<subseteq> A" using Cons.prems(1) by (simp add: ys)
      ultimately have "xs = ys' \<and> r = r'"
        using Cons.IH [of ys'] Cons.prems(3,4) by (metis UnCI UnE list.set_intros(2))
      then show ?thesis by (simp add: xy ys)
    qed
  qed
qed

text \<open>The first character tells the kind of a value.\<close>

fun starts_as :: "Value \<Rightarrow> char \<Rightarrow> bool" where
  "starts_as Null c \<longleftrightarrow> c = CHR ''n''"
| "starts_as (Bool b) c \<longleftrightarrow> c = CHR ''t'' \<or> c = CHR ''f''"
| "starts_as (Number n) c \<longleftrightarrow> is_digit c \<or> c = CHR ''-''"
| "starts_as (String s) c \<longleftrightarrow> c = CHR 0x22"
| "starts_as (Array vs) c \<longleftrightarrow> c = CHR ''[''"
| "starts_as (Object m) c \<longleftrightarrow> c = CHR ''{''"

lemma json_chars_start:
  assumes "integral v"
  shows "\<exists>a u. json_chars v = a # u \<and> starts_as v a"
proof (cases v)
  case (Number n)
  have "\<exists>a u. show_nat k = a # u \<and> is_digit a" for k
    using hd_show_nat [of k] show_nat_nonempty [of k] by (cases "show_nat k") auto
  then show ?thesis using assms by (cases n) (auto simp: Number show_int_def, blast+)
qed (auto simp: json_string_def)

lemma starts_as_not_closing: "starts_as v a \<Longrightarrow> a \<noteq> CHR '']'' \<and> a \<noteq> CHR ''}''"
  by (cases v) auto

lemma same_start:
  assumes "json_chars v @ r = json_chars w @ r'" and "integral v" and "integral w"
  shows "\<exists>a. starts_as v a \<and> starts_as w a"
  using json_chars_start [OF assms(2)] json_chars_start [OF assms(3)] assms(1) by auto

lemma json_chars_prefix:
  "json_chars v @ r = json_chars w @ r' \<Longrightarrow> wf_value v \<Longrightarrow> integral v \<Longrightarrow> wf_value w \<Longrightarrow> integral w \<Longrightarrow>
   delim r \<Longrightarrow> delim r' \<Longrightarrow> v = w \<and> r = r'"
proof (induction v arbitrary: w r r' rule: json_chars.induct)
  case (3 n)
  obtain a where "starts_as (Number n) a" "starts_as w a" using same_start [OF 3(1,3,5)] by blast
  then obtain k where "w = Number k" by (cases w) auto
  then show ?case using json_number_prefix [of n r k r'] 3 by simp
next
  case (4 s)
  obtain a where "starts_as (String s) a" "starts_as w a" using same_start [OF 4(1,3,5)] by blast
  then obtain t where "w = String t" by (cases w) auto
  then show ?case using json_string_prefix [of s r t r'] 4(1) by simp
next
  case (5 items)
  obtain a where "starts_as (Array items) a" "starts_as w a" using same_start [OF 5(2,4,6)] by blast
  then obtain items' where w: "w = Array items'" by (cases w) auto
  let ?A = "{v. wf_value v \<and> integral v}"
  have "items = items' \<and> r = r'"
  proof (rule comma_join_prefix [where f = json_chars and A = ?A and c = "CHR '']''"])
    show "comma_join (map json_chars items) @ CHR '']'' # r = comma_join (map json_chars items') @ CHR '']'' # r'"
      using 5(2) by (simp add: w)
    show "set items' \<subseteq> ?A" using 5(5,6) by (auto simp: w)
    fix x
    assume "x \<in> set items \<union> ?A"
    then have "integral x" using 5(4) by auto
    from json_chars_start [OF this] show "\<exists>a u. json_chars x = a # u \<and> a \<noteq> CHR '']''"
      using starts_as_not_closing by blast
  next
    fix x y q q'
    assume "x \<in> set items" "y \<in> ?A" "delim q" "delim q'" "json_chars x @ q = json_chars y @ q'"
    then show "x = y \<and> q = q'" using 5(1) [of x q y q'] 5(3,4) by simp
  qed simp_all
  then show ?case by (simp add: w)
next
  case (6 m)
  obtain a where "starts_as (Object m) a" "starts_as w a" using same_start [OF 6(2,4,6)] by blast
  then obtain m' where w: "w = Object m'" by (cases w) auto
  let ?A = "{kv. wf_value (snd kv) \<and> integral (snd kv)}"
  let ?f = "\<lambda>kv. json_string (fst kv) @ CHR '':'' # json_chars (snd kv)"
  have "m = m' \<and> r = r'"
  proof (rule comma_join_prefix [where f = ?f and A = ?A and c = "CHR ''}''"])
    show "comma_join (map ?f m) @ CHR ''}'' # r = comma_join (map ?f m') @ CHR ''}'' # r'"
      using 6(2) by (simp add: w)
    show "set m' \<subseteq> ?A" using 6(5,6) by (auto simp: w)
    show "\<exists>a u. ?f x = a # u \<and> a \<noteq> CHR ''}''" for x by (simp add: json_string_def)
  next
    fix x y q q'
    assume xy: "x \<in> set m" "y \<in> ?A" "delim q" "delim q'" "?f x @ q = ?f y @ q'"
    have "fst x = fst y \<and> CHR '':'' # json_chars (snd x) @ q = CHR '':'' # json_chars (snd y) @ q'"
      by (rule json_string_prefix) (use xy(5) in simp)
    then show "x = y \<and> q = q'" using 6(1) [of x q "snd y" q'] 6(3,4) xy by (simp add: prod_eq_iff)
  qed simp_all
  then show ?case by (simp add: w)
next
  case 1
  obtain a where "starts_as Null a" "starts_as w a" using same_start [OF 1(1,3,5)] by blast
  then have "w = Null" by (cases w) auto
  then show ?case using 1(1) by simp
next
  case (2 b)
  obtain a where "starts_as (Bool b) a" "starts_as w a" using same_start [OF 2(1,3,5)] by blast
  then obtain b' where "w = Bool b'" by (cases w) auto
  then show ?case using 2(1) by (simp split: if_splits)
qed

section \<open>The writer as bytes\<close>

definition char_byte :: "char \<Rightarrow> u8" where
  "char_byte c = of_nat (of_char c)"

lemma inj_char_byte: "inj char_byte"
proof
  fix c d
  assume "char_byte c = char_byte d"
  then have "unat (char_byte c) = unat (char_byte d)" by simp
  then have "of_char c = (of_char d :: nat)" by (simp add: char_byte_def unat_of_nat)
  then show "c = d" by simp
qed

definition json_writer :: "Value \<Rightarrow> u8 list result" where
  "json_writer v = (if integral v then Ok (map char_byte (json_chars v)) else Err ''floats are not supported'')"

lemma json_writer_injective: "json_text_injective json_writer"
  unfolding json_text_injective_def
proof (intro allI impI)
  fix v w bytes
  assume ok: "wf_value v" "integral v" "wf_value w" "integral w"
    and "json_writer v = Ok bytes" "json_writer w = Ok bytes"
  then have "map char_byte (json_chars v) = map char_byte (json_chars w)" by (simp add: json_writer_def)
  then have "json_chars v @ [] = json_chars w @ []" using inj_map_eq_map [OF inj_char_byte] by simp
  from json_chars_prefix [OF this ok] show "v = w" by (simp add: delim_def)
qed

lemma json_writer_total: "integral v \<Longrightarrow> is_ok (json_writer v)"
  by (simp add: json_writer_def)

text \<open>The example of the repository's own test, down to the characters.\<close>

lemma canonical_text_example:
  "canonical_json \<lparr>to_value = Ok, to_vec = json_writer, json_insert = bt_insert\<rparr> example_value
     = Ok (map char_byte ''{\"a\":2,\"m\":{\"b\":4,\"y\":3},\"z\":1}'')"
  by (simp add: canonical_json_def example_value_def canonicalize_value.simps Let_def json_writer_def
      json_string_def json_escape_def show_nat.simps digit_char_def char_of_def bit_0)

end
