(* ===== verification/Hardware.thy ===== *)
theory Hardware
  imports Foreign
begin

text \<open>
  Hardware identities, \<open>src/core/hardware.rs\<close>: the identity and its source, the manual and
  the synthetic constructor, the Linux probe over the host's files and the macOS probe
  over IOKit.  The selection by operating system and the Windows probe, which goes
  through the NVML provider, are in \<open>Hardware_Probe\<close>.  IOKit is not part of the
  repository: its entry points extend the CoreFoundation record of \<open>Foreign\<close>.
\<close>

section \<open>Identities\<close>

datatype HardwareIdentitySource =
    MacosIoKitSerial
  | LinuxMachineId
  | LinuxGpuUuid
  | WindowsNvmlUuid
  | WindowsNvmlSerial
  | Manual
  | Synthetic

record HardwareIdentity =
  fingerprint :: string
  hw_source :: HardwareIdentitySource

text \<open>The derived \<open>Debug\<close> of the source and the \<open>Display\<close> of an identity.\<close>

fun debug_source :: "HardwareIdentitySource \<Rightarrow> string" where
  "debug_source MacosIoKitSerial = ''MacosIoKitSerial''"
| "debug_source LinuxMachineId = ''LinuxMachineId''"
| "debug_source LinuxGpuUuid = ''LinuxGpuUuid''"
| "debug_source WindowsNvmlUuid = ''WindowsNvmlUuid''"
| "debug_source WindowsNvmlSerial = ''WindowsNvmlSerial''"
| "debug_source Manual = ''Manual''"
| "debug_source Synthetic = ''Synthetic''"

definition display_identity :: "HardwareIdentity \<Rightarrow> string" where
  "display_identity i = fingerprint i @ '' (source: '' @ debug_source (hw_source i) @ '')''"

definition manual :: "string \<Rightarrow> HardwareIdentity" where
  "manual fp = \<lparr>fingerprint = fp, hw_source = Manual\<rparr>"

text \<open>The host component of a synthetic identity.\<close>

definition result_or_else :: "'a result \<Rightarrow> 'a result \<Rightarrow> 'a result" where
  "result_or_else a b = (case a of Inl _ \<Rightarrow> b | Inr x \<Rightarrow> Ok x)"

definition synthetic_host :: "host \<Rightarrow> string" where
  "synthetic_host h =
     (let hostname =
        (case result_or_else (result_or_else (host_env_var h ''HOSTNAME'') (host_env_var h ''COMPUTERNAME''))
                (map_sum id trim (host_read_to_string h ''/etc/hostname'')) of
           Inl _ \<Rightarrow> ''unknown-host''
         | Inr s \<Rightarrow> s);
        hostname = trim hostname
      in if hostname = [] then ''unknown-host'' else hostname)"

definition synthetic :: "host \<Rightarrow> string \<Rightarrow> HardwareIdentity" where
  "synthetic h reason =
     \<lparr>fingerprint = ''synthetic:'' @ reason @ '':host='' @ synthetic_host h
        @ '':pid='' @ show_nat (unat (host_process_id h)),
      hw_source = Synthetic\<rparr>"

section \<open>The Linux probe\<close>

definition read_machine_id :: "host \<Rightarrow> string result" where
  "read_machine_id h =
     (case host_read_to_string h ''/etc/machine-id'' of
        Inl _ \<Rightarrow> Err ''failed to read /etc/machine-id''
      | Inr raw \<Rightarrow>
          let trimmed = trim raw in
          if trimmed = [] then Err ''/etc/machine-id is empty'' else Ok trimmed)"

fun gpu_uuid_loop :: "host \<Rightarrow> string list \<Rightarrow> string result" where
  "gpu_uuid_loop h [] = Err ''no GPU UUID found in any /sys/class/drm/*/device/uuid file''"
| "gpu_uuid_loop h (entry # entries) =
     (let candidate = path_push (path_push entry ''device'') ''uuid'' in
      case host_read_to_string h candidate of
        Inr raw \<Rightarrow>
          let trimmed = trim raw in
          if trimmed \<noteq> [] then Ok trimmed else gpu_uuid_loop h entries
      | Inl _ \<Rightarrow> gpu_uuid_loop h entries)"

definition read_gpu_uuid :: "host \<Rightarrow> string result" where
  "read_gpu_uuid h =
     (case host_read_dir h ''/sys/class/drm'' of
        Inl _ \<Rightarrow> Err ''failed to enumerate /sys/class/drm''
      | Inr entries \<Rightarrow> gpu_uuid_loop h (flatten_ok entries))"

definition linux_probe :: "host \<Rightarrow> HardwareIdentity result" where
  "linux_probe h =
     (case read_machine_id h of
        Inr machine_id \<Rightarrow> Ok \<lparr>fingerprint = machine_id, hw_source = LinuxMachineId\<rparr>
      | Inl machine_err \<Rightarrow>
          (case read_gpu_uuid h of
             Inr uuid \<Rightarrow> Ok \<lparr>fingerprint = uuid, hw_source = LinuxGpuUuid\<rparr>
           | Inl gpu_err \<Rightarrow>
               Err (''/etc/machine-id unreadable ('' @ machine_err
                    @ '') and no GPU UUID under /sys/class/drm/* ('' @ gpu_err @ '')'')))"

section \<open>The macOS probe\<close>

record 'w iokit_ops = "'w cf_ops" +
  IOServiceMatching :: "string \<Rightarrow> 'w \<Rightarrow> c_ref \<times> 'w"
  IOServiceGetMatchingService :: "u32 \<Rightarrow> c_ref \<Rightarrow> 'w \<Rightarrow> u32 \<times> 'w"
  IORegistryEntryCreateCFProperty :: "u32 \<Rightarrow> c_ref \<Rightarrow> 'w \<Rightarrow> c_ref \<times> 'w"
  IOObjectRelease :: "u32 \<Rightarrow> 'w \<Rightarrow> i32 \<times> 'w"

definition K_IO_MASTER_PORT_DEFAULT :: u32 where
  "K_IO_MASTER_PORT_DEFAULT = 0"

definition hw_cfstring_new :: "('w, 'z) cf_ops_scheme \<Rightarrow> string \<Rightarrow> 'w \<Rightarrow> c_ref result \<times> 'w" where
  "hw_cfstring_new cf v w =
     (case CString_new v of
        Inl _ \<Rightarrow> (Err ''CFString value contains an interior NUL'', w)
      | Inr c \<Rightarrow>
          (case CFStringCreateWithCString cf c w of
             (raw, w') \<Rightarrow>
               if raw = 0 then (Err ''CFStringCreateWithCString returned NULL'', w') else (Ok raw, w')))"

definition hw_cfstring_to_string :: "('w, 'z) cf_ops_scheme \<Rightarrow> c_ref \<Rightarrow> 'w \<Rightarrow> string result" where
  "hw_cfstring_to_string cf v w =
     (if v = 0 then Err ''cfstring_to_string called with NULL''
      else let length' = CFStringGetLength cf v w;
               max_size = CFStringGetMaximumSizeForEncoding cf length'
           in if max_size < 0 then Err ''CoreFoundation returned an invalid UTF-8 buffer size''
              else case CFStringGetCString cf v (replicate (nat max_size + 1) (CHR 0x00)) w of
                (ok, buffer) \<Rightarrow>
                  if ok = 0 then Err ''CFStringGetCString failed to export the serial as UTF-8''
                  else Ok (to_string_lossy (CStr_from_ptr buffer)))"

text \<open>The part of the probe that runs while the key string is alive.\<close>

definition read_serial_property :: "'w iokit_ops \<Rightarrow> u32 \<Rightarrow> c_ref \<Rightarrow> 'w \<Rightarrow> string result \<times> 'w" where
  "read_serial_property io service key w =
     (case IORegistryEntryCreateCFProperty io service key w of (property, w) \<Rightarrow>
      case IOObjectRelease io service w of (release_code, w) \<Rightarrow>
      if property = 0
      then (Err ''IOPlatformSerialNumber property is missing from IOKit registry'', w)
      else (hw_cfstring_to_string io property w, CFRelease io property w))"

definition read_platform_serial :: "'w iokit_ops \<Rightarrow> 'w \<Rightarrow> string result \<times> 'w" where
  "read_platform_serial io w =
     (case CString_new ''IOPlatformExpertDevice'' of
        Inl _ \<Rightarrow> (Err ''invalid IOKit service name'', w)
      | Inr service_name \<Rightarrow>
     (case IOServiceMatching io service_name w of (matching, w) \<Rightarrow>
      if matching = 0
      then (Err ''IOServiceMatching returned NULL for IOPlatformExpertDevice'', w) else
     (case IOServiceGetMatchingService io K_IO_MASTER_PORT_DEFAULT matching w of (service, w) \<Rightarrow>
      if service = 0
      then (Err ''IOServiceGetMatchingService could not locate IOPlatformExpertDevice'', w) else
     (case hw_cfstring_new io ''IOPlatformSerialNumber'' w of
        (Inl e, w) \<Rightarrow> (Err e, w)
      | (Inr key, w) \<Rightarrow>
          scoped io key (read_serial_property io service key) w))))"

definition macos_probe :: "'w iokit_ops \<Rightarrow> 'w \<Rightarrow> HardwareIdentity result \<times> 'w" where
  "macos_probe io w =
     (case read_platform_serial io w of
        (Inl e, w') \<Rightarrow> (Err e, w')
      | (Inr serial, w') \<Rightarrow> (Ok \<lparr>fingerprint = serial, hw_source = MacosIoKitSerial\<rparr>, w'))"

section \<open>What the Linux probe finds\<close>

text \<open>The usable texts of the two sources: readable and not blank.\<close>

definition nonblank :: "string result \<Rightarrow> string option" where
  "nonblank r = (case r of Inl _ \<Rightarrow> None | Inr raw \<Rightarrow> if trim raw = [] then None else Some (trim raw))"

definition gpu_uuid_files :: "host \<Rightarrow> string list" where
  "gpu_uuid_files h =
     (case host_read_dir h ''/sys/class/drm'' of
        Inl _ \<Rightarrow> []
      | Inr entries \<Rightarrow> map (\<lambda>entry. path_push (path_push entry ''device'') ''uuid'') (flatten_ok entries))"

definition fingerprint_candidates :: "host \<Rightarrow> (string \<times> HardwareIdentitySource) list" where
  "fingerprint_candidates h =
     List.map_filter (\<lambda>(file, src). map_option (\<lambda>t. (t, src)) (nonblank (host_read_to_string h file)))
       ((''/etc/machine-id'', LinuxMachineId) # map (\<lambda>file. (file, LinuxGpuUuid)) (gpu_uuid_files h))"

lemma result_ok_read_machine_id:
  "result_ok (read_machine_id h) = nonblank (host_read_to_string h ''/etc/machine-id'')"
  by (simp add: read_machine_id_def nonblank_def Let_def split: sum.split)

lemma result_ok_gpu_uuid_loop:
  "map_option (\<lambda>t. (t, LinuxGpuUuid)) (result_ok (gpu_uuid_loop h entries))
     = (case List.map_filter (\<lambda>(file, src). map_option (\<lambda>t. (t, src)) (nonblank (host_read_to_string h file)))
          (map (\<lambda>file. (file, LinuxGpuUuid))
            (map (\<lambda>entry. path_push (path_push entry ''device'') ''uuid'') entries)) of
          [] \<Rightarrow> None | c # cs \<Rightarrow> Some c)"
  by (induction entries)
     (simp_all add: nonblank_def Let_def List.map_filter_simps split: sum.split)

lemma result_ok_read_gpu_uuid:
  "map_option (\<lambda>t. (t, LinuxGpuUuid)) (result_ok (read_gpu_uuid h))
     = (case List.map_filter (\<lambda>(file, src). map_option (\<lambda>t. (t, src)) (nonblank (host_read_to_string h file)))
          (map (\<lambda>file. (file, LinuxGpuUuid)) (gpu_uuid_files h)) of
          [] \<Rightarrow> None | c # cs \<Rightarrow> Some c)"
  unfolding read_gpu_uuid_def gpu_uuid_files_def
  by (cases "host_read_dir h ''/sys/class/drm''")
     (simp_all only: sum.case result_ok_gpu_uuid_loop, simp add: List.map_filter_simps)

lemma result_ok_linux_probe:
  "result_ok (linux_probe h) = (case fingerprint_candidates h of
     [] \<Rightarrow> None | (t, src) # cs \<Rightarrow> Some \<lparr>fingerprint = t, hw_source = src\<rparr>)"
proof (cases "read_machine_id h")
  case (Inr t)
  then have "nonblank (host_read_to_string h ''/etc/machine-id'') = Some t"
    using result_ok_read_machine_id [of h] by simp
  then show ?thesis
    by (simp add: linux_probe_def Inr fingerprint_candidates_def List.map_filter_simps)
next
  case (Inl e)
  then have "nonblank (host_read_to_string h ''/etc/machine-id'') = None"
    using result_ok_read_machine_id [of h] by simp
  then have "(case fingerprint_candidates h of [] \<Rightarrow> None | c # cs \<Rightarrow> Some c)
      = map_option (\<lambda>t. (t, LinuxGpuUuid)) (result_ok (read_gpu_uuid h))"
    by (simp add: fingerprint_candidates_def List.map_filter_simps result_ok_read_gpu_uuid)
  then show ?thesis
    by (cases "read_gpu_uuid h") (auto simp: linux_probe_def Inl split: list.splits)
qed

lemma fingerprint_candidates_nonempty: "(t, src) \<in> set (fingerprint_candidates h) \<Longrightarrow> t \<noteq> []"
  by (auto simp: fingerprint_candidates_def List.map_filter_def nonblank_def split: sum.splits if_splits)

section \<open>Synthetic identities tell hosts and processes apart\<close>

text \<open>A number at the end of a text, after a byte that is not a digit, is unambiguous.\<close>

lemma takeWhile_digits: "takeWhile (\<lambda>c. to_digit c \<noteq> None) (rev (show_nat n) @ CHR ''='' # xs) = rev (show_nat n)"
proof -
  have "to_digit c \<noteq> None" if "c \<in> set (rev (show_nat n))" for c
    using that set_show_nat [of c n] by auto
  then show ?thesis
    by (subst takeWhile_append2) (simp_all add: to_digit_def Let_def)
qed

lemma trailing_number_unique:
  "xs @ '':pid='' @ show_nat m = ys @ '':pid='' @ show_nat n \<longleftrightarrow> xs = ys \<and> show_nat m = show_nat n"
proof
  assume "xs @ '':pid='' @ show_nat m = ys @ '':pid='' @ show_nat n"
  then have "rev (show_nat m) @ CHR ''='' # ''dip:'' @ rev xs = rev (show_nat n) @ CHR ''='' # ''dip:'' @ rev ys"
    by (drule_tac arg_cong [where f = rev]) simp
  moreover from this have "rev (show_nat m) = rev (show_nat n)"
    by (drule_tac arg_cong [where f = "takeWhile (\<lambda>c. to_digit c \<noteq> None)"])
       (simp only: takeWhile_digits)
  ultimately show "xs = ys \<and> show_nat m = show_nat n" by simp
qed simp

lemma unat_u32_le: "unat (x :: u32) \<le> u64_max"
  using unat_le_max [of x] by simp

text \<open>A host that knows nothing but its process id.\<close>

definition bare_host :: "u32 \<Rightarrow> host" where
  "bare_host pid =
     \<lparr>host_env_var = (\<lambda>v. Err ''environment variable not found''),
      host_read_to_string = (\<lambda>f. Err ''No such file or directory (os error 2)''),
      host_read_dir = (\<lambda>d. Err ''No such file or directory (os error 2)''),
      host_process_id = pid, host_now = None\<rparr>"

section \<open>References held by the macOS probe\<close>

text \<open>
  IOKit's documented ownership: \<open>IOServiceMatching\<close> and \<open>IORegistryEntryCreateCFProperty\<close>
  return an owned reference, \<open>IOServiceGetMatchingService\<close> consumes the dictionary and
  returns an owned service handle, \<open>IOObjectRelease\<close> gives one back.
\<close>

definition iokit_ownership :: "'w iokit_ops \<Rightarrow> ('w \<Rightarrow> c_ref multiset) \<Rightarrow> ('w \<Rightarrow> u32 multiset) \<Rightarrow> bool" where
  "iokit_ownership io owned services \<longleftrightarrow>
     cf_create_rule io owned
     \<and> (\<forall>x w. services (CFRelease io x w) = services w)
     \<and> (\<forall>s w. services (snd (CFStringCreateWithCString io s w)) = services w)
     \<and> (\<forall>s w. owned (snd (IOServiceMatching io s w)) = owned w + created (fst (IOServiceMatching io s w))
           \<and> services (snd (IOServiceMatching io s w)) = services w)
     \<and> (\<forall>port m w. owned (snd (IOServiceGetMatchingService io port m w)) = owned w - {#m#}
           \<and> services (snd (IOServiceGetMatchingService io port m w))
               = (let s = fst (IOServiceGetMatchingService io port m w)
                  in if s = 0 then services w else add_mset s (services w)))
     \<and> (\<forall>s k w. owned (snd (IORegistryEntryCreateCFProperty io s k w))
               = owned w + created (fst (IORegistryEntryCreateCFProperty io s k w))
           \<and> services (snd (IORegistryEntryCreateCFProperty io s k w)) = services w)
     \<and> (\<forall>s w. owned (snd (IOObjectRelease io s w)) = owned w
           \<and> services (snd (IOObjectRelease io s w))
               = (if fst (IOObjectRelease io s w) = 0 then services w - {#s#} else services w))"

lemma iokit_ownershipD:
  assumes "iokit_ownership io owned services"
  shows "cf_create_rule io owned"
    and "services (CFRelease io x w) = services w"
    and "CFStringCreateWithCString io t w = (r, w') \<Longrightarrow> services w' = services w"
    and "IOServiceMatching io t w = (r, w') \<Longrightarrow> owned w' = owned w + created r \<and> services w' = services w"
    and "IOServiceGetMatchingService io port m w = (s, w') \<Longrightarrow>
           owned w' = owned w - {#m#} \<and> services w' = (if s = 0 then services w else add_mset s (services w))"
    and "IORegistryEntryCreateCFProperty io s k w = (r, w') \<Longrightarrow>
           owned w' = owned w + created r \<and> services w' = services w"
    and "IOObjectRelease io s w = (code, w') \<Longrightarrow>
           owned w' = owned w \<and> services w' = (if code = 0 then services w - {#s#} else services w)"
  using assms unfolding iokit_ownership_def Let_def by (metis fst_conv snd_conv)+

text \<open>
  From the moment the key exists, every way out gives back the key and the property, and the
  service unless \<open>IOObjectRelease\<close> reports a failure.
\<close>

lemma read_serial_property_balanced:
  assumes "iokit_ownership io owned services"
    and "IORegistryEntryCreateCFProperty io service key w = (property, w1)"
    and "IOObjectRelease io service w1 = (code, w2)"
  shows "owned (snd (read_serial_property io service key w)) = owned w
    \<and> services (snd (read_serial_property io service key w))
        = (if code = 0 then services w - {#service#} else services w)"
proof -
  note L = iokit_ownershipD [OF assms(1)]
  have "owned w2 = owned w + created property"
    "services w2 = (if code = 0 then services w - {#service#} else services w)"
    using L(6) [OF assms(2)] L(7) [OF assms(3)] by simp_all
  then show ?thesis
    by (cases "property = 0")
       (simp_all add: read_serial_property_def assms(2,3) cf_owned_release [OF L(1)] L(2))
qed

text \<open>
  The calls of the probe in order, each with what it returns and the world it leaves.  After a
  failure the probe makes no further calls, and what they would return plays no role.
\<close>

definition probe_calls ::
  "'w iokit_ops \<Rightarrow> 'w \<Rightarrow> c_ref \<times> 'w \<Rightarrow> u32 \<times> 'w \<Rightarrow> c_ref \<times> 'w \<Rightarrow> c_ref \<times> 'w \<Rightarrow> i32 \<times> 'w \<Rightarrow> bool" where
  "probe_calls io w matching service key property code \<longleftrightarrow>
     IOServiceMatching io ''IOPlatformExpertDevice'' w = matching
     \<and> IOServiceGetMatchingService io K_IO_MASTER_PORT_DEFAULT (fst matching) (snd matching) = service
     \<and> CFStringCreateWithCString io ''IOPlatformSerialNumber'' (snd service) = key
     \<and> IORegistryEntryCreateCFProperty io (fst service) (fst key) (snd key) = property
     \<and> IOObjectRelease io (fst service) (snd property) = code"

text \<open>Whether the probe came to hold a service, and whether it gave it back.\<close>

definition service_kept :: "c_ref \<Rightarrow> u32 \<Rightarrow> c_ref \<Rightarrow> i32 \<Rightarrow> bool" where
  "service_kept matching service key code \<longleftrightarrow>
     matching \<noteq> 0 \<and> service \<noteq> 0 \<and> (key = 0 \<or> code \<noteq> 0)"

lemma read_platform_serial_balance:
  assumes "iokit_ownership io owned services"
    and "probe_calls io w (m, w1) (s, w2) (k, w3) (property, w4) (code, w5)"
  shows "owned (snd (read_platform_serial io w)) = owned w
    \<and> services (snd (read_platform_serial io w))
        = (if service_kept m s k code then add_mset s (services w) else services w)"
proof -
  note L = iokit_ownershipD [OF assms(1)]
  have m: "IOServiceMatching io ''IOPlatformExpertDevice'' w = (m, w1)"
    and s: "IOServiceGetMatchingService io K_IO_MASTER_PORT_DEFAULT m w1 = (s, w2)"
    and k: "CFStringCreateWithCString io ''IOPlatformSerialNumber'' w2 = (k, w3)"
    and p: "IORegistryEntryCreateCFProperty io s k w3 = (property, w4)"
    and r: "IOObjectRelease io s w4 = (code, w5)"
    using assms(2) by (simp_all add: probe_calls_def)
  have w3: "owned w3 = owned w2 + created k" "services w3 = services w2"
    using cf_owned_string [OF L(1) k] L(3) [OF k] by simp_all
  note run = read_platform_serial_def CString_new_def hw_cfstring_new_def m s k service_kept_def
  consider "m = 0" | "m \<noteq> 0" "s = 0" | "m \<noteq> 0" "s \<noteq> 0" "k = 0" | "m \<noteq> 0" "s \<noteq> 0" "k \<noteq> 0" by blast
  then show ?thesis
  proof cases
    case 4
    then have "read_platform_serial io w = scoped io k (read_serial_property io s k) w3"
      by (simp add: run)
    then show ?thesis
      using read_serial_property_balanced [OF assms(1) p r] L(4) [OF m] L(5) [OF s] w3 4
      by (simp add: cf_owned_release [OF L(1)] L(2) service_kept_def)
  qed (use L(4) [OF m] L(5) [OF s] w3 in \<open>simp_all add: run\<close>)
qed

text \<open>
  A small IOKit for the witnesses: fixed references, the owned ones kept in two multisets,
  string allocation and release of a service that fail on demand; the serial number is given.
\<close>

definition small_iokit :: "bool \<Rightarrow> i32 \<Rightarrow> string \<Rightarrow> (c_ref multiset \<times> u32 multiset) iokit_ops" where
  "small_iokit alloc_ok release_code serial =
     \<lparr>CFRelease = (\<lambda>x (o', s). (o' - {#x#}, s)),
      CFStringCreateWithCString = (\<lambda>t (o', s). if alloc_ok then (2, (add_mset 2 o', s)) else (0, (o', s))),
      CFStringGetLength = (\<lambda>x w. int (length serial)),
      CFStringGetMaximumSizeForEncoding = (\<lambda>n. 3 * n),
      CFStringGetCString = (\<lambda>x buffer w. (1, serial @ drop (length serial) buffer)),
      IOServiceMatching = (\<lambda>t (o', s). (1, (add_mset 1 o', s))),
      IOServiceGetMatchingService = (\<lambda>port m (o', s). (7, (o' - {#m#}, add_mset 7 s))),
      IORegistryEntryCreateCFProperty = (\<lambda>service k (o', s). (3, (add_mset 3 o', s))),
      IOObjectRelease = (\<lambda>service (o', s).
        (release_code, (o', if release_code = 0 then s - {#service#} else s)))\<rparr>"

lemma small_iokit_ownership: "iokit_ownership (small_iokit ok code serial) fst snd"
  by (auto simp: iokit_ownership_def cf_create_rule_def small_iokit_def)

section \<open>Properties\<close>

text \<open>
  C39.  Synthetic identities of two hosts, given the same reason, coincide exactly when
  the host name component and the process id coincide.  Two hosts on which no host name
  can be found therefore collide as soon as their daemons have the same process id.
\<close>

theorem synthetic_identity_eq_iff:
  "synthetic h1 reason = synthetic h2 reason
     \<longleftrightarrow> synthetic_host h1 = synthetic_host h2 \<and> host_process_id h1 = host_process_id h2"
proof -
  let ?x = "\<lambda>h. ''synthetic:'' @ reason @ '':host='' @ synthetic_host h"
  have "synthetic h1 reason = synthetic h2 reason
      \<longleftrightarrow> ?x h1 @ '':pid='' @ show_nat (unat (host_process_id h1))
         = ?x h2 @ '':pid='' @ show_nat (unat (host_process_id h2))"
    by (simp only: synthetic_def HardwareIdentity.ext_inject append_assoc simp_thms)
  also have "\<dots> \<longleftrightarrow> ?x h1 = ?x h2
      \<and> show_nat (unat (host_process_id h1)) = show_nat (unat (host_process_id h2))"
    by (rule trailing_number_unique)
  also have "\<dots> \<longleftrightarrow> synthetic_host h1 = synthetic_host h2 \<and> host_process_id h1 = host_process_id h2"
    by (simp add: show_nat_inj unat_u32_le word_unat_eq_iff)
  finally show ?thesis .
qed

text \<open>
  C30.  The macOS probe never leaks or over-releases a CoreFoundation reference, on any of
  its paths and whatever the system answers.  The IOKit service handle it obtains is given back
  except in exactly two cases: the key string cannot be allocated, so that the early return
  skips the release, or \<open>IOObjectRelease\<close> itself reports a failure, which is only logged.  In
  these cases exactly one handle stays behind, and otherwise none.
\<close>

theorem macos_probe_references:
  assumes "iokit_ownership io owned services"
    and "probe_calls io w (matching, w1) (service, w2) (key, w3) (property, w4) (code, w5)"
    and "macos_probe io w = (res, w')"
  shows "owned w' = owned w
    \<and> (if matching \<noteq> 0 \<and> service \<noteq> 0 \<and> (key = 0 \<or> code \<noteq> 0)
        then services w' = add_mset service (services w) else services w' = services w)
    \<and> (services w' \<noteq> services w \<longleftrightarrow> matching \<noteq> 0 \<and> service \<noteq> 0 \<and> (key = 0 \<or> code \<noteq> 0))"
proof -
  obtain r w'' where r: "read_platform_serial io w = (r, w'')" by fastforce
  have "w' = w''" using assms(3) by (cases r) (auto simp: macos_probe_def r)
  then show ?thesis
    using read_platform_serial_balance [OF assms(1,2)] by (auto simp: r service_kept_def)
qed

theorem macos_probe_references_witness:
  "snd (snd (macos_probe (small_iokit False 0 ''C02-42'') ({#}, {#}))) = {#7#}
   \<and> snd (snd (macos_probe (small_iokit True 5 ''C02-42'') ({#}, {#}))) = {#7#}
   \<and> snd (snd (macos_probe (small_iokit True 0 ''C02-42'') ({#}, {#}))) = {#}
   \<and> fst (snd (macos_probe (small_iokit True 5 ''C02-42'') ({#}, {#}))) = {#}"
proof -
  let ?io = "\<lambda>ok code. small_iokit ok code ''C02-42''"
  have ok: "probe_calls (?io True code) ({#}, {#}) (1, ({#1#}, {#})) (7, ({#}, {#7#})) (2, ({#2#}, {#7#}))
      (3, ({#2, 3#}, {#7#})) (code, ({#2, 3#}, if code = 0 then {#} else {#7#}))" for code
    by (simp add: probe_calls_def small_iokit_def)
  have failed: "probe_calls (?io False 0) ({#}, {#}) (1, ({#1#}, {#})) (7, ({#}, {#7#})) (0, ({#}, {#7#}))
      (3, ({#3#}, {#7#})) (0, ({#3#}, {#}))"
    by (simp add: probe_calls_def small_iokit_def)
  note T = macos_probe_references [OF small_iokit_ownership _ surjective_pairing]
  show ?thesis using T [OF failed] T [OF ok, of 0] T [OF ok, of 5] by simp
qed

end
