(* ===== verification/Signer.thy ===== *)
theory Signer
  imports Json_Text Provider Hardware "HOL-Library.Product_Lexorder"
begin

text \<open>
  The Amalgafy seal, \<open>src/core/signer.rs\<close>: the payload, sealing (sort, canonicalize, sign)
  and verification.  Ed25519 is not part of the repository: keys, signing and verification
  are a record of functions, and \<open>ed25519_laws\<close> is its documented behaviour on honest
  signatures.  \<open>serde_layout\<close> says what the derived \<open>Serialize\<close> implementations produce: an
  object with one entry per field, in whatever order the map keeps them.

  Nothing here assumes that signatures cannot be forged: where that would be needed, the
  theorem exhibits the forgery instead.
\<close>

section \<open>Data\<close>

definition AMALGAFY_SEAL_INTERVAL_SECS :: u64 where
  "AMALGAFY_SEAL_INTERVAL_SECS = 60"

record AmalgafySealPayload =
  pl_manifest_version :: u32
  pl_hardware_serial :: string
  pl_hardware_identity :: HardwareIdentity
  pl_sealed_at_unix_ns :: u64
  pl_total_micro_joules :: u64
  pl_attributions :: "PidEnergyAttribution list"

record AmalgafySeal =
  seal_payload :: AmalgafySealPayload
  seal_signing_public_key :: "u8 list"
  seal_signature :: "u8 list"
  seal_canonical_payload :: "u8 list"

record ('sk, 'vk) ed25519 =
  ed_verifying_key :: "'sk \<Rightarrow> 'vk"
  ed_to_bytes :: "'vk \<Rightarrow> u8 list"
  ed_from_bytes :: "u8 list \<Rightarrow> 'vk result"
  ed_sign :: "'sk \<Rightarrow> u8 list \<Rightarrow> u8 list"
  ed_verify :: "'vk \<Rightarrow> u8 list \<Rightarrow> u8 list \<Rightarrow> unit result"

record 'sk AmalgafySigner =
  signing_key :: 'sk
  signer_manifest_version :: u32

section \<open>The layout of the derived serialization\<close>

text \<open>The serde name of a source: its variant in snake case.\<close>

fun source_name :: "HardwareIdentitySource \<Rightarrow> string" where
  "source_name MacosIoKitSerial = ''macos_io_kit_serial''"
| "source_name LinuxMachineId = ''linux_machine_id''"
| "source_name LinuxGpuUuid = ''linux_gpu_uuid''"
| "source_name WindowsNvmlUuid = ''windows_nvml_uuid''"
| "source_name WindowsNvmlSerial = ''windows_nvml_serial''"
| "source_name Manual = ''manual''"
| "source_name Synthetic = ''synthetic''"

definition identity_value :: "HardwareIdentity \<Rightarrow> Value" where
  "identity_value i =
     Object [(''fingerprint'', String (fingerprint i)), (''source'', String (source_name (hw_source i)))]"

definition attribution_value :: "PidEnergyAttribution \<Rightarrow> Value" where
  "attribution_value a =
     Object [(''pid'', Number (PosInt (u64_from (attr_pid a)))),
             (''window_start_ns'', Number (PosInt (attr_window_start_ns a))),
             (''window_end_ns'', Number (PosInt (attr_window_end_ns a))),
             (''burst_power_uw'', Number (PosInt (attr_burst_power_uw a))),
             (''attributed_energy_uj'', Number (PosInt (attr_attributed_energy_uj a))),
             (''hardware_signature'', String (attr_hardware_signature a))]"

definition payload_value :: "AmalgafySealPayload \<Rightarrow> Value" where
  "payload_value p =
     Object [(''manifest_version'', Number (PosInt (u64_from (pl_manifest_version p)))),
             (''hardware_serial'', String (pl_hardware_serial p)),
             (''hardware_identity'', identity_value (pl_hardware_identity p)),
             (''sealed_at_unix_ns'', Number (PosInt (pl_sealed_at_unix_ns p))),
             (''total_micro_joules'', Number (PosInt (pl_total_micro_joules p))),
             (''attributions'', Array (map attribution_value (pl_attributions p)))]"

definition serde_layout :: "('a \<Rightarrow> Value result) \<Rightarrow> ('a \<Rightarrow> Value) \<Rightarrow> bool" where
  "serde_layout conv value_of \<longleftrightarrow>
     (\<forall>p. \<exists>v. conv p = Ok v \<and> wf_value v \<and> same_content v (value_of p))"

section \<open>Sealing and verifying\<close>

definition signer_new :: "'sk \<Rightarrow> 'sk AmalgafySigner" where
  "signer_new sk = \<lparr>signing_key = sk, signer_manifest_version = 1\<rparr>"

definition with_manifest_version :: "'sk AmalgafySigner \<Rightarrow> u32 \<Rightarrow> 'sk AmalgafySigner" where
  "with_manifest_version s version = s\<lparr>signer_manifest_version := version\<rparr>"

definition verifying_key :: "('sk, 'vk) ed25519 \<Rightarrow> 'sk AmalgafySigner \<Rightarrow> 'vk" where
  "verifying_key ed s = ed_verifying_key ed (signing_key s)"

abbreviation attr_key :: "PidEnergyAttribution \<Rightarrow> u32 \<times> u64 \<times> u64" where
  "attr_key a \<equiv> (attr_pid a, attr_window_start_ns a, attr_window_end_ns a)"

text \<open>\<open>sort_by\<close> with the lexicographic comparison of the three keys; the sort is stable.\<close>

definition sort_attributions :: "PidEnergyAttribution list \<Rightarrow> PidEnergyAttribution list" where
  "sort_attributions as = sort_key attr_key as"

definition seal ::
  "('sk, 'vk) ed25519 \<Rightarrow> AmalgafySealPayload serde_json \<Rightarrow> host \<Rightarrow> 'sk AmalgafySigner
     \<Rightarrow> PidEnergyAttribution list \<Rightarrow> string \<Rightarrow> u64 \<Rightarrow> HardwareIdentity \<Rightarrow> AmalgafySeal result" where
  "seal ed js h s attributions hardware_serial total_uj hardware_identity =
     (let sealed_at_unix_ns = now_ns_or U64_MAX h;
          attributions = sort_attributions attributions;
          payload = \<lparr>pl_manifest_version = signer_manifest_version s,
                     pl_hardware_serial = hardware_serial,
                     pl_hardware_identity = hardware_identity,
                     pl_sealed_at_unix_ns = sealed_at_unix_ns,
                     pl_total_micro_joules = total_uj,
                     pl_attributions = attributions\<rparr>
      in case canonical_json js payload of
           Inl err \<Rightarrow> Err err
         | Inr canonical_bytes \<Rightarrow>
             Ok \<lparr>seal_payload = payload,
                 seal_signing_public_key = ed_to_bytes ed (ed_verifying_key ed (signing_key s)),
                 seal_signature = ed_sign ed (signing_key s) canonical_bytes,
                 seal_canonical_payload = canonical_bytes\<rparr>)"

definition verify_seal ::
  "('sk, 'vk) ed25519 \<Rightarrow> AmalgafySealPayload serde_json \<Rightarrow> AmalgafySeal \<Rightarrow> unit result" where
  "verify_seal ed js s =
     (case ed_from_bytes ed (seal_signing_public_key s) of
        Inl err \<Rightarrow> Err err
      | Inr vk \<Rightarrow>
          if length (seal_signature s) \<noteq> 64 then Err ''invalid ed25519 signature length''
          else (case canonical_json js (seal_payload s) of
             Inl err \<Rightarrow> Err err
           | Inr re_canonical \<Rightarrow>
               if re_canonical \<noteq> seal_canonical_payload s
               then Err ''AmalgafySeal canonical payload does not match its declared payload''
               else (case ed_verify ed vk (seal_canonical_payload s) (seal_signature s) of
                  Inl err \<Rightarrow> Err err
                | Inr _ \<Rightarrow> Ok ())))"

section \<open>Laws of the libraries\<close>

definition ed25519_laws :: "('sk, 'vk) ed25519 \<Rightarrow> bool" where
  "ed25519_laws ed \<longleftrightarrow>
     (\<forall>sk. ed_from_bytes ed (ed_to_bytes ed (ed_verifying_key ed sk)) = Ok (ed_verifying_key ed sk))
     \<and> (\<forall>sk m. length (ed_sign ed sk m) = 64)
     \<and> (\<forall>sk m. ed_verify ed (ed_verifying_key ed sk) m (ed_sign ed sk m) = Ok ())"

definition json_laws :: "AmalgafySealPayload serde_json \<Rightarrow> bool" where
  "json_laws js \<longleftrightarrow>
     json_map (json_insert js) \<and> json_text_injective (to_vec js)
     \<and> (\<forall>v. wf_value v \<longrightarrow> integral v \<longrightarrow> is_ok (to_vec js v))
     \<and> serde_layout (to_value js) payload_value"

section \<open>The payload can be read back from its canonical bytes\<close>

lemma same_content_scalar:
  "same_content (Number a) (Number b) \<longleftrightarrow> a = b"
  "same_content (String s) (String t) \<longleftrightarrow> s = t"
  by (auto dest: same_content_shape)

lemma same_content_field:
  assumes "same_content (Object m) (Object n)"
  shows "rel_option same_content (map_of m k) (map_of n k)"
proof (cases "map_of m k")
  case None
  have "fst ` set m = fst ` set n" using same_content_shape [OF assms] by simp
  then have "map_of n k = None" using None by (simp add: map_of_eq_None_iff)
  with None show ?thesis by simp
next
  case (Some v)
  then show ?thesis using same_content_key [OF assms Some] by auto
qed

lemma source_name_inj: "source_name a = source_name b \<longleftrightarrow> a = b"
  by (cases a; cases b) simp_all

lemma identity_value_inj: "same_content (identity_value i) (identity_value j) \<Longrightarrow> i = j"
proof -
  assume "same_content (identity_value i) (identity_value j)"
  note F = same_content_field [OF this [unfolded identity_value_def]]
  have "fingerprint i = fingerprint j" "hw_source i = hw_source j"
    using F [of "''fingerprint''"] F [of "''source''"]
    by (simp_all add: same_content_scalar source_name_inj)
  then show "i = j" by simp
qed

lemma u64_from_inj: "u64_from a = u64_from b \<longleftrightarrow> a = b"
  by (metis unat_u64_from word_unat_eq_iff)

lemma attribution_value_inj: "same_content (attribution_value a) (attribution_value b) \<Longrightarrow> a = b"
proof -
  assume "same_content (attribution_value a) (attribution_value b)"
  note F = same_content_field [OF this [unfolded attribution_value_def]]
  have "attr_pid a = attr_pid b" "attr_window_start_ns a = attr_window_start_ns b"
    "attr_window_end_ns a = attr_window_end_ns b" "attr_burst_power_uw a = attr_burst_power_uw b"
    "attr_attributed_energy_uj a = attr_attributed_energy_uj b"
    "attr_hardware_signature a = attr_hardware_signature b"
    using F [of "''pid''"] F [of "''window_start_ns''"] F [of "''window_end_ns''"]
      F [of "''burst_power_uw''"] F [of "''attributed_energy_uj''"] F [of "''hardware_signature''"]
    by (simp_all add: same_content_scalar u64_from_inj)
  then show "a = b" by simp
qed

lemma attributions_value_inj:
  assumes "same_content (Array (map attribution_value as)) (Array (map attribution_value bs))"
  shows "as = bs"
proof (rule nth_equalityI)
  show "length as = length bs" using same_content_shape [OF assms] by simp
  fix i
  assume "i < length as"
  then show "as ! i = bs ! i"
    using same_content_index [OF assms, of i] by (intro attribution_value_inj) auto
qed

lemma payload_value_inj: "same_content (payload_value p) (payload_value q) \<Longrightarrow> p = q"
proof -
  assume "same_content (payload_value p) (payload_value q)"
  note F = same_content_field [OF this [unfolded payload_value_def]]
  have "pl_manifest_version p = pl_manifest_version q" "pl_hardware_serial p = pl_hardware_serial q"
    "pl_sealed_at_unix_ns p = pl_sealed_at_unix_ns q" "pl_total_micro_joules p = pl_total_micro_joules q"
    using F [of "''manifest_version''"] F [of "''hardware_serial''"]
      F [of "''sealed_at_unix_ns''"] F [of "''total_micro_joules''"]
    by (simp_all add: same_content_scalar u64_from_inj)
  moreover have "pl_hardware_identity p = pl_hardware_identity q"
    using F [of "''hardware_identity''"] by (intro identity_value_inj) simp
  moreover have "pl_attributions p = pl_attributions q"
    using F [of "''attributions''"] by (intro attributions_value_inj) simp
  ultimately show "p = q" by simp
qed

lemma wf_payload_value: "wf_value (payload_value p)"
  by (simp add: payload_value_def identity_value_def attribution_value_def)

lemma integral_payload_value: "integral (payload_value p)"
  by (simp add: payload_value_def identity_value_def attribution_value_def)

lemma canonical_json_total:
  assumes "json_laws js"
  shows "\<exists>bytes. canonical_json js p = Ok bytes"
proof -
  obtain v where v: "to_value js p = Ok v" "wf_value v" "same_content v (payload_value p)"
    using assms unfolding json_laws_def serde_layout_def by blast
  have m: "json_map (json_insert js)" using assms by (simp add: json_laws_def)
  have "wf_value (canonicalize_value (json_insert js) v)"
    using json_map.wf_canonicalize [OF m] v(2) by simp
  moreover have "integral (canonicalize_value (json_insert js) v)"
    using calculation same_content_integral [OF same_content_trans [OF json_map.same_content_canonicalize [OF m v(2)] v(3)]]
      wf_payload_value integral_payload_value by blast
  ultimately have "is_ok (to_vec js (canonicalize_value (json_insert js) v))"
    using assms by (simp add: json_laws_def)
  then show ?thesis by (auto simp: canonical_json_def v(1) Let_def is_ok_iff)
qed

lemma canonical_json_inj:
  assumes "json_laws js" and "canonical_json js p = Ok bytes" and "canonical_json js q = Ok bytes"
  shows "p = q"
proof -
  obtain v w where v: "to_value js p = Ok v" "wf_value v" "same_content v (payload_value p)"
    and w: "to_value js q = Ok w" "wf_value w" "same_content w (payload_value q)"
    using assms(1) unfolding json_laws_def serde_layout_def by metis
  have "integral v" "integral w"
    using v(2,3) w(2,3) same_content_integral wf_payload_value integral_payload_value by blast+
  then have "same_content v w"
    using canonical_json_content [OF _ _ v(1) w(1) v(2) w(2) assms(2,3)] assms(1)
    by (simp add: json_laws_def)
  then show ?thesis
    using v(3) w(3) payload_value_inj by (metis same_content_sym same_content_trans)
qed

section \<open>Accepting and producing seals\<close>

lemma verify_seal_ok_iff:
  "verify_seal ed js s = Ok () \<longleftrightarrow>
     length (seal_signature s) = 64 \<and> canonical_json js (seal_payload s) = Ok (seal_canonical_payload s)
     \<and> (\<exists>vk. ed_from_bytes ed (seal_signing_public_key s) = Ok vk
           \<and> ed_verify ed vk (seal_canonical_payload s) (seal_signature s) = Ok ())"
  by (auto simp: verify_seal_def split: sum.split)

lemma seal_ok:
  assumes "seal ed js h s as serial t i = Ok sl"
  shows "canonical_json js (seal_payload sl) = Ok (seal_canonical_payload sl)"
    and "seal_signature sl = ed_sign ed (signing_key s) (seal_canonical_payload sl)"
    and "seal_signing_public_key sl = ed_to_bytes ed (ed_verifying_key ed (signing_key s))"
    and "seal_payload sl = \<lparr>pl_manifest_version = signer_manifest_version s, pl_hardware_serial = serial,
           pl_hardware_identity = i, pl_sealed_at_unix_ns = now_ns_or U64_MAX h,
           pl_total_micro_joules = t, pl_attributions = sort_attributions as\<rparr>"
  using assms by (auto simp: seal_def Let_def split: sum.splits)

lemma seal_total: "json_laws js \<Longrightarrow> \<exists>sl. seal ed js h s as serial t i = Ok sl"
  using canonical_json_total unfolding seal_def Let_def by (auto split: sum.split) (metis Inr_Inl_False)

lemma seal_accepted:
  assumes "ed25519_laws ed" and "seal ed js h s as serial t i = Ok sl"
  shows "verify_seal ed js sl = Ok ()"
  using assms(1) by (simp add: verify_seal_ok_iff seal_ok(1-3) [OF assms(2)] ed25519_laws_def)

lemma changed_payload_rejected:
  assumes "ed25519_laws ed" and "json_laws js"
    and "seal ed js h s as serial t i = Ok sl" and "q \<noteq> seal_payload sl"
  shows "verify_seal ed js (sl\<lparr>seal_payload := q\<rparr>)
    = Err ''AmalgafySeal canonical payload does not match its declared payload''"
proof -
  note S = seal_ok [OF assms(3)]
  obtain bytes where q: "canonical_json js q = Ok bytes"
    using canonical_json_total [OF assms(2)] by blast
  then have "bytes \<noteq> seal_canonical_payload sl"
    using canonical_json_inj [OF assms(2) q] S(1) assms(4) by metis
  moreover have "ed_from_bytes ed (seal_signing_public_key sl) = Ok (ed_verifying_key ed (signing_key s))"
    "length (seal_signature sl) = 64"
    using assms(1) unfolding S(2,3) by (simp_all add: ed25519_laws_def)
  ultimately show ?thesis using q by (simp add: verify_seal_def)
qed

lemma sort_attributions_perm:
  assumes "mset as = mset bs" and "distinct (map attr_key as)"
  shows "sort_attributions as = sort_attributions bs"
proof -
  have "inj_on attr_key (set as)" using assms(2) by (simp add: distinct_map)
  then have "sort_key attr_key as = sort_key attr_key bs"
    using assms(1) by (intro sort_key_inj_key_eq) simp_all
  then show ?thesis by (simp add: sort_attributions_def)
qed

section \<open>Everything a key has sealed\<close>

text \<open>
  The seals that a history of calls of \<open>seal\<close> produced; a call names the signer, the host it
  reads the time from and the arguments.
\<close>

type_synonym 'sk seal_call =
  "'sk AmalgafySigner \<times> host \<times> PidEnergyAttribution list \<times> string \<times> u64 \<times> HardwareIdentity"

fun sealed_by ::
  "('sk, 'vk) ed25519 \<Rightarrow> AmalgafySealPayload serde_json \<Rightarrow> 'sk seal_call list \<Rightarrow> AmalgafySeal list" where
  "sealed_by ed js [] = []"
| "sealed_by ed js ((s, h, as, serial, t, i) # cs) =
     (case seal ed js h s as serial t i of Inl _ \<Rightarrow> sealed_by ed js cs | Inr sl \<Rightarrow> sl # sealed_by ed js cs)"

lemma sealed_by_cases:
  "sl \<in> set (sealed_by ed js cs) \<Longrightarrow>
   \<exists>s h as serial t i. (s, h, as, serial, t, i) \<in> set cs \<and> seal ed js h s as serial t i = Ok sl"
  by (induction ed js cs rule: sealed_by.induct) (auto split: sum.splits, blast+)

section \<open>Instances for the witnesses\<close>

text \<open>
  An Ed25519 stand-in that satisfies the laws: a key is a byte, a signature is the key
  followed by 63 zeros and is accepted for every message.
\<close>

definition small_ed25519 :: "(u8, u8) ed25519" where
  "small_ed25519 =
     \<lparr>ed_verifying_key = (\<lambda>sk. sk), ed_to_bytes = (\<lambda>vk. vk # replicate 31 0),
      ed_from_bytes = (\<lambda>bytes. Ok (hd bytes)), ed_sign = (\<lambda>sk m. sk # replicate 63 0),
      ed_verify = (\<lambda>vk m sig. if hd sig = vk then Ok () else Err ''signature error'')\<rparr>"

lemma small_ed25519_laws: "ed25519_laws small_ed25519"
  by (simp add: ed25519_laws_def small_ed25519_def)

definition small_json :: "AmalgafySealPayload serde_json" where
  "small_json = \<lparr>to_value = (\<lambda>p. Ok (payload_value p)), to_vec = json_writer, json_insert = index_insert\<rparr>"

lemma small_json_laws: "json_laws small_json"
  using wf_payload_value
  by (simp add: json_laws_def small_json_def serde_layout_def index_json.json_map_axioms json_writer_injective
      json_writer_total)

definition example_attribution :: "u32 \<Rightarrow> u64 \<Rightarrow> PidEnergyAttribution" where
  "example_attribution pid uj =
     \<lparr>attr_pid = pid, attr_window_start_ns = 100, attr_window_end_ns = 200, attr_burst_power_uw = 5500000,
      attr_attributed_energy_uj = uj, attr_hardware_signature = ''NV-H100''\<rparr>"

section \<open>Properties\<close>

text \<open>
  C12.  Sealing succeeds and the seal verifies; it carries the given serial, identity and
  total and the given attributions, rearranged into ascending order of process id, window
  start and window end.
\<close>

theorem seal_verifies:
  assumes "ed25519_laws ed" and "json_laws js"
  shows "\<exists>sl. seal ed js h s as serial t i = Ok sl \<and> verify_seal ed js sl = Ok ()
    \<and> pl_hardware_serial (seal_payload sl) = serial \<and> pl_hardware_identity (seal_payload sl) = i
    \<and> pl_total_micro_joules (seal_payload sl) = t
    \<and> mset (pl_attributions (seal_payload sl)) = mset as
    \<and> sorted (map attr_key (pl_attributions (seal_payload sl)))"
proof -
  obtain sl where sl: "seal ed js h s as serial t i = Ok sl"
    using seal_total [OF assms(2)] by blast
  then show ?thesis
    using seal_accepted [OF assms(1) sl] by (simp add: seal_ok(4) [OF sl] sort_attributions_def)
qed

theorem seal_verifies_witness:
  "\<exists>sl. seal small_ed25519 small_json (bare_host 1) (signer_new 3)
       [example_attribution 4242 550, example_attribution 7 100] ''NV-H100'' 650 (manual ''NV-H100'') = Ok sl
     \<and> verify_seal small_ed25519 small_json sl = Ok () \<and> pl_total_micro_joules (seal_payload sl) = 650"
  using seal_verifies [OF small_ed25519_laws small_json_laws, of "bare_host 1" "signer_new 3"
      "[example_attribution 4242 550, example_attribution 7 100]" "''NV-H100''" 650 "manual ''NV-H100''"]
  by blast

text \<open>
  C11.  Changing anything in the payload of a seal, its total, serial, identity, time stamp,
  version or any attribution, makes verification fail with the mismatch error, whatever
  the signature algorithm does.
\<close>

theorem payload_tampering_detected:
  assumes "ed25519_laws ed" and "json_laws js"
    and "seal ed js h s as serial t i = Ok sl" and "q \<noteq> seal_payload sl"
  shows "verify_seal ed js (sl\<lparr>seal_payload := q\<rparr>)
    = Err ''AmalgafySeal canonical payload does not match its declared payload''"
  using assms by (rule changed_payload_rejected)

theorem payload_tampering_detected_witness:
  "\<exists>sl. seal small_ed25519 small_json (bare_host 1) (signer_new 5) [] ''NV-H100'' 650 (manual ''NV-H100'') = Ok sl
     \<and> verify_seal small_ed25519 small_json (sl\<lparr>seal_payload := (seal_payload sl)\<lparr>pl_total_micro_joules := 1\<rparr>\<rparr>)
       = Err ''AmalgafySeal canonical payload does not match its declared payload''"
proof -
  obtain sl where sl: "seal small_ed25519 small_json (bare_host 1) (signer_new 5) [] ''NV-H100'' 650
      (manual ''NV-H100'') = Ok sl"
    using seal_total [OF small_json_laws] by blast
  have total: "pl_total_micro_joules (seal_payload sl) = 650" using seal_ok(4) [OF sl] by simp
  have "(seal_payload sl)\<lparr>pl_total_micro_joules := 1\<rparr> \<noteq> seal_payload sl"
  proof
    assume "(seal_payload sl)\<lparr>pl_total_micro_joules := 1\<rparr> = seal_payload sl"
    from arg_cong [OF this, of pl_total_micro_joules] show False by (simp add: total)
  qed
  from payload_tampering_detected [OF small_ed25519_laws small_json_laws sl this] sl show ?thesis by blast
qed

text \<open>
  C26.  Seals cannot be forged without forging a signature.  Take any history of seals made
  with a signing key and any seal that verifies under that key although its payload was sealed
  by no call of the history, whatever its other fields are, replaced canonical bytes and
  signatures taken from elsewhere included.  Then its signature is valid for the canonical
  bytes of its payload, and these are none of the messages the history signed, which are the
  canonical bytes of its seals: whoever made the seal produced a valid signature on a message
  that none of the calls signed.
\<close>

theorem accepted_seal_needs_signature:
  assumes "json_laws js" and "ed25519_laws ed"
    and "\<forall>c \<in> set calls. signing_key (fst c) = sk"
    and "verify_seal ed js forged = Ok ()"
    and "seal_signing_public_key forged = ed_to_bytes ed (ed_verifying_key ed sk)"
    and "seal_payload forged \<notin> seal_payload ` set (sealed_by ed js calls)"
  shows "\<exists>m. canonical_json js (seal_payload forged) = Ok m
    \<and> ed_verify ed (ed_verifying_key ed sk) m (seal_signature forged) = Ok ()
    \<and> m \<notin> seal_canonical_payload ` set (sealed_by ed js calls)
    \<and> (\<forall>sl \<in> set (sealed_by ed js calls). seal_signature sl = ed_sign ed sk (seal_canonical_payload sl))"
proof -
  have "ed_from_bytes ed (seal_signing_public_key forged) = Ok (ed_verifying_key ed sk)"
    using assms(2,5) by (simp add: ed25519_laws_def)
  then have V: "canonical_json js (seal_payload forged) = Ok (seal_canonical_payload forged)"
    "ed_verify ed (ed_verifying_key ed sk) (seal_canonical_payload forged) (seal_signature forged) = Ok ()"
    using assms(4) by (auto simp: verify_seal_ok_iff)
  have made: "canonical_json js (seal_payload sl) = Ok (seal_canonical_payload sl)
      \<and> seal_signature sl = ed_sign ed sk (seal_canonical_payload sl)"
    if "sl \<in> set (sealed_by ed js calls)" for sl
    using sealed_by_cases [OF that] seal_ok(1,2) assms(3) by fastforce
  then have "seal_canonical_payload forged \<notin> seal_canonical_payload ` set (sealed_by ed js calls)"
    using canonical_json_inj [OF assms(1) V(1)] assms(6) by (auto simp: image_iff)
  then show ?thesis using V made by blast
qed

text \<open>
  The witness forges against the stand-in for Ed25519, which accepts any signature that begins
  with the key: the signature of the forged seal is not one that any call makes.
\<close>

definition forged_seal :: AmalgafySeal where
  "forged_seal =
     (let p = \<lparr>pl_manifest_version = 1, pl_hardware_serial = ''A'', pl_hardware_identity = manual ''A'',
               pl_sealed_at_unix_ns = 0, pl_total_micro_joules = 1, pl_attributions = []\<rparr>
      in \<lparr>seal_payload = p, seal_signing_public_key = 5 # replicate 31 0, seal_signature = 5 # replicate 63 1,
          seal_canonical_payload = projr (canonical_json small_json p)\<rparr>)"

lemma forged_seal_accepted: "verify_seal small_ed25519 small_json forged_seal = Ok ()"
proof -
  obtain bytes where "canonical_json small_json (seal_payload forged_seal) = Ok bytes"
    using canonical_json_total [OF small_json_laws] by blast
  then show ?thesis by (simp add: verify_seal_ok_iff forged_seal_def Let_def) (simp add: small_ed25519_def)
qed

theorem accepted_seal_needs_signature_witness:
  "\<exists>sl m. sealed_by small_ed25519 small_json [(signer_new 5, bare_host 1, [], ''A'', 650, manual ''A'')] = [sl]
     \<and> verify_seal small_ed25519 small_json forged_seal = Ok ()
     \<and> m \<noteq> seal_canonical_payload sl
     \<and> ed_verify small_ed25519 5 m (seal_signature forged_seal) = Ok ()
     \<and> seal_signature forged_seal \<noteq> ed_sign small_ed25519 5 m"
proof -
  let ?calls = "[(signer_new 5, bare_host 1, [], ''A'', 650, manual ''A'')] :: u8 seal_call list"
  obtain sl where sl: "seal small_ed25519 small_json (bare_host 1) (signer_new 5) [] ''A'' 650 (manual ''A'') = Ok sl"
    using seal_total [OF small_json_laws] by blast
  then have calls: "sealed_by small_ed25519 small_json ?calls = [sl]" by simp
  have "seal_payload forged_seal \<notin> seal_payload ` set (sealed_by small_ed25519 small_json ?calls)"
    unfolding calls using seal_ok(4) [OF sl] by (simp add: forged_seal_def Let_def)
  moreover have "\<forall>c \<in> set ?calls. signing_key (fst c) = 5" by (simp add: signer_new_def)
  moreover have "seal_signing_public_key forged_seal = ed_to_bytes small_ed25519 (ed_verifying_key small_ed25519 5)"
    by (simp add: forged_seal_def small_ed25519_def Let_def)
  ultimately obtain m where "m \<notin> seal_canonical_payload ` set (sealed_by small_ed25519 small_json ?calls)"
    "ed_verify small_ed25519 (ed_verifying_key small_ed25519 5) m (seal_signature forged_seal) = Ok ()"
    using accepted_seal_needs_signature [OF small_json_laws small_ed25519_laws _ forged_seal_accepted,
        where calls = ?calls and sk = 5] by blast
  then have "m \<noteq> seal_canonical_payload sl"
    "ed_verify small_ed25519 5 m (seal_signature forged_seal) = Ok ()"
    unfolding calls by (simp_all add: small_ed25519_def)
  moreover have "seal_signature forged_seal \<noteq> ed_sign small_ed25519 5 m"
    by (simp add: small_ed25519_def forged_seal_def Let_def)
  ultimately show ?thesis using calls forged_seal_accepted by blast
qed

text \<open>
  C27.  Sealing is insensitive to the order of the attributions as long as no two of them
  agree in process id and window: any rearrangement gives the same seal, byte for byte.
\<close>

theorem seal_order_independent:
  assumes "mset as = mset bs" and "distinct (map attr_key as)"
  shows "seal ed js h s as serial t i = seal ed js h s bs serial t i"
  by (simp add: seal_def sort_attributions_perm [OF assms])

theorem seal_order_independent_witness:
  "seal small_ed25519 small_json (bare_host 1) (signer_new 9)
     [example_attribution 4242 550, example_attribution 7 100] ''NV-H100'' 650 (manual ''NV-H100'')
   = seal small_ed25519 small_json (bare_host 1) (signer_new 9)
     [example_attribution 7 100, example_attribution 4242 550] ''NV-H100'' 650 (manual ''NV-H100'')"
  by (rule seal_order_independent) (simp_all add: example_attribution_def)

text \<open>
  C28.  With a tie the order does matter: two different attributions of the same process
  and window are sealed in the order given, so swapping them changes the canonical bytes.
\<close>

theorem seal_depends_on_order_of_ties:
  assumes "json_laws js" and "a \<noteq> b" and "attr_key a = attr_key b"
    and "seal ed js h s [a, b] serial t i = Ok sl" and "seal ed js h s [b, a] serial t i = Ok sl'"
  shows "seal_canonical_payload sl \<noteq> seal_canonical_payload sl'"
proof
  assume eq: "seal_canonical_payload sl = seal_canonical_payload sl'"
  note S = seal_ok [OF assms(4)] and S' = seal_ok [OF assms(5)]
  have "seal_payload sl = seal_payload sl'"
    using canonical_json_inj [OF assms(1) S(1)] S'(1) eq by simp
  moreover have "sort_attributions [a, b] = [a, b]" "sort_attributions [b, a] = [b, a]"
    using assms(3) by (simp_all add: sort_attributions_def)
  ultimately show False using S(4) S'(4) assms(2) by simp
qed

theorem seal_depends_on_order_of_ties_witness:
  "\<exists>sl sl'. seal small_ed25519 small_json (bare_host 1) (signer_new 9)
       [example_attribution 7 550, example_attribution 7 100] ''A'' 650 (manual ''A'') = Ok sl
     \<and> seal small_ed25519 small_json (bare_host 1) (signer_new 9)
       [example_attribution 7 100, example_attribution 7 550] ''A'' 650 (manual ''A'') = Ok sl'
     \<and> seal_canonical_payload sl \<noteq> seal_canonical_payload sl'"
proof -
  let ?seal = "\<lambda>as. seal small_ed25519 small_json (bare_host 1) (signer_new 9) as ''A'' 650 (manual ''A'')"
  obtain sl sl' where "?seal [example_attribution 7 550, example_attribution 7 100] = Ok sl"
    "?seal [example_attribution 7 100, example_attribution 7 550] = Ok sl'"
    using seal_total [OF small_json_laws] by metis
  moreover have "example_attribution 7 550 \<noteq> example_attribution 7 100"
    "attr_key (example_attribution 7 550) = attr_key (example_attribution 7 100)"
    by (simp_all add: example_attribution_def)
  ultimately show ?thesis
    using seal_depends_on_order_of_ties [OF small_json_laws] by blast
qed

end
