(* ===== verification/Daemon.thy ===== *)
theory Daemon
  imports Linux_Provider Apple_Provider Signer
begin

text \<open>
  Histories of the calls a daemon makes on one provider and one registry.  The sampling loop
  borrows its provider, so a daemon runs the loop for a while, drops it, feeds events to the
  provider, synchronises its pending attributions into the registry, and starts the loop
  again, in any order.  \<open>daemon_step\<close> is such a history for any provider; the locale
  \<open>daemon\<close> states what a provider must promise for the energy to add up.  The Linux and the
  Apple Silicon provider are interpretations of it here, the Windows provider in
  \<open>Windows_Daemon\<close>.  The theorems account for every
  micro-joule from the heartbeats, fences and attributed windows to the sealed total.
\<close>

section \<open>Histories\<close>

text \<open>
  Besides the provider and the registry, the state carries what has happened so far: the
  heartbeats of all loops, the attributions queued on the provider, and the attributions
  that were written to the registry directly.
\<close>

record ('p, 't) daemon_state =
  dm_provider :: 'p
  dm_registry :: "'t AmalgafyRegistry"
  dm_beats :: "heartbeat list"
  dm_queued :: "PidEnergyAttribution list"
  dm_direct :: "PidEnergyAttribution list"

definition daemon_start :: "'p \<Rightarrow> 't AmalgafyRegistry \<Rightarrow> ('p, 't) daemon_state" where
  "daemon_start p r = \<lparr>dm_provider = p, dm_registry = r, dm_beats = [], dm_queued = [], dm_direct = []\<rparr>"

text \<open>
  What a provider lets a daemon do: run the loop over what its ticks read, apply an event
  that queues attributions, attribute a window directly, and synchronise.
\<close>

record ('p, 'e, 'o, 'w, 't) daemon_ops =
  do_loop :: "'e list \<Rightarrow> 'p \<Rightarrow> 't AmalgafyRegistry \<Rightarrow> ('p \<times> 't AmalgafyRegistry \<times> heartbeat list) option"
  do_event :: "'o \<Rightarrow> 'p \<Rightarrow> 'p"
  event_emits :: "'o \<Rightarrow> 'p \<Rightarrow> PidEnergyAttribution list"
  do_window :: "'w \<Rightarrow> 'p \<Rightarrow> 't AmalgafyRegistry \<Rightarrow> ('p \<times> 't AmalgafyRegistry \<times> PidEnergyAttribution list) option"
  do_sync :: "'p \<Rightarrow> 't AmalgafyRegistry \<Rightarrow> 'p \<times> 't AmalgafyRegistry \<times> u64 result"

inductive daemon_step ::
  "('p, 'e, 'o, 'w, 't) daemon_ops \<Rightarrow> ('p, 't) daemon_state \<Rightarrow> ('p, 't) daemon_state \<Rightarrow> bool" for ops where
  daemon_loop: "do_loop ops es (dm_provider d) (dm_registry d) = Some (p, r, hs) \<Longrightarrow>
    daemon_step ops d (d\<lparr>dm_provider := p, dm_registry := r, dm_beats := dm_beats d @ hs\<rparr>)"
| daemon_event: "daemon_step ops d (d\<lparr>dm_provider := do_event ops op (dm_provider d),
    dm_queued := dm_queued d @ event_emits ops op (dm_provider d)\<rparr>)"
| daemon_window: "do_window ops w (dm_provider d) (dm_registry d) = Some (p, r, as) \<Longrightarrow>
    daemon_step ops d (d\<lparr>dm_provider := p, dm_registry := r, dm_direct := dm_direct d @ as\<rparr>)"
| daemon_sync: "do_sync ops (dm_provider d) (dm_registry d) = (p, r, res) \<Longrightarrow>
    daemon_step ops d (d\<lparr>dm_provider := p, dm_registry := r\<rparr>)"

abbreviation daemon_steps ::
  "('p, 'e, 'o, 'w, 't) daemon_ops \<Rightarrow> ('p, 't) daemon_state \<Rightarrow> ('p, 't) daemon_state \<Rightarrow> bool" where
  "daemon_steps ops \<equiv> (daemon_step ops)\<^sup>*\<^sup>*"

definition beats_uj :: "('p, 't) daemon_state \<Rightarrow> nat" where
  "beats_uj d = sum_list (map heartbeat_uj (dm_beats d))"

definition attributed_uj :: "PidEnergyAttribution list \<Rightarrow> nat" where
  "attributed_uj as = sum_deltas (map attr_add as)"

lemma attributed_uj_simps [simp]:
  "attributed_uj [] = 0" "attributed_uj (as @ bs) = attributed_uj as + attributed_uj bs"
  by (simp_all add: attributed_uj_def)

text \<open>All the energy a history has measured.\<close>

definition measured_uj :: "('p, 't) daemon_state \<Rightarrow> nat" where
  "measured_uj d = beats_uj d + attributed_uj (dm_queued d) + attributed_uj (dm_direct d)"

section \<open>The contract of a provider\<close>

locale daemon =
  fixes sm :: "'t skip_map_ops" and ops :: "('p, 'e, 'o, 'w, 't) daemon_ops"
    and pending_of :: "'p \<Rightarrow> PidEnergyAttribution list"
  assumes loop_pending: "do_loop ops es p r = Some (p', r', hs) \<Longrightarrow> pending_of p' = pending_of p"
    and loop_adds: "do_loop ops es p r = Some (p', r', hs) \<Longrightarrow> list_all pids_fit hs \<Longrightarrow>
      \<exists>ps. r' = add_all (add_micro_joules sm) r ps \<and> sum_deltas ps = sum_list (map heartbeat_uj hs)"
    and event_pending: "pending_of (do_event ops op p) = pending_of p @ event_emits ops op p"
    and window_pending: "do_window ops w p r = Some (p', r', as) \<Longrightarrow> pending_of p' = pending_of p"
    and window_adds: "do_window ops w p r = Some (p', r', as) \<Longrightarrow>
      r' = add_all (add_micro_joules sm) r (map attr_add as)"
    and sync_pending: "pending_of (fst (do_sync ops p r)) = []"
    and sync_adds: "fst (snd (do_sync ops p r)) = add_all (add_micro_joules sm) r (map attr_add (pending_of p))"
begin

lemma step_adds:
  assumes "daemon_step ops d d'" and "list_all pids_fit (dm_beats d')"
  shows "\<exists>qs. dm_registry d' = add_all (add_micro_joules sm) (dm_registry d) qs
    \<and> sum_deltas qs + attributed_uj (pending_of (dm_provider d')) + measured_uj d
        = measured_uj d' + attributed_uj (pending_of (dm_provider d))"
  using assms(1)
proof cases
  case (daemon_loop es p' r' hs)
  then have "list_all pids_fit hs" using assms(2) by simp
  with daemon_loop loop_adds [OF daemon_loop(2)] loop_pending [OF daemon_loop(2)] show ?thesis
    by (auto simp: measured_uj_def beats_uj_def)
next
  case (daemon_event op)
  then show ?thesis
    by (intro exI [of _ "[]"]) (simp add: event_pending measured_uj_def beats_uj_def)
next
  case (daemon_window w p' r' as)
  with window_adds [OF daemon_window(2)] window_pending [OF daemon_window(2)] show ?thesis
    by (auto simp: measured_uj_def beats_uj_def attributed_uj_def)
next
  case (daemon_sync p' r' res)
  then show ?thesis
    using sync_pending [of "dm_provider d" "dm_registry d"] sync_adds [of "dm_provider d" "dm_registry d"]
    by (intro exI [of _ "map attr_add (pending_of (dm_provider d))"])
       (simp add: measured_uj_def beats_uj_def attributed_uj_def)
qed

text \<open>
  The registry is the initial one after a sequence of accumulations whose sum, together with
  what is still pending, is all the energy measured.
\<close>

lemma steps_adds:
  assumes "daemon_steps ops (daemon_start p r) d" and "pending_of p = []" and "list_all pids_fit (dm_beats d)"
  shows "\<exists>ps. dm_registry d = add_all (add_micro_joules sm) r ps
    \<and> sum_deltas ps + attributed_uj (pending_of (dm_provider d)) = measured_uj d"
  using assms(1,3)
proof (induction rule: rtranclp_induct)
  case base
  show ?case
    using assms(2) by (intro exI [of _ "[]"]) (simp add: daemon_start_def measured_uj_def beats_uj_def)
next
  case (step d d')
  obtain qs where qs: "dm_registry d' = add_all (add_micro_joules sm) (dm_registry d) qs"
    "sum_deltas qs + attributed_uj (pending_of (dm_provider d')) + measured_uj d
       = measured_uj d' + attributed_uj (pending_of (dm_provider d))"
    using step_adds [OF step.hyps(2) step.prems] by blast
  have "list_all pids_fit (dm_beats d)"
    using step.hyps(2) step.prems by cases auto
  then obtain ps where ps: "dm_registry d = add_all (add_micro_joules sm) r ps"
    "sum_deltas ps + attributed_uj (pending_of (dm_provider d)) = measured_uj d"
    using step.IH by blast
  have "dm_registry d' = add_all (add_micro_joules sm) r (ps @ qs)"
    by (simp add: qs(1) ps(1) add_all_append)
  moreover have "sum_deltas (ps @ qs) + attributed_uj (pending_of (dm_provider d')) = measured_uj d'"
    using qs(2) ps(2) by simp
  ultimately show ?case by blast
qed

text \<open>After a final synchronisation nothing is pending and the registry holds everything.\<close>

lemma synced_adds:
  assumes "daemon_steps ops (daemon_start p r) d" and "pending_of p = []" and "list_all pids_fit (dm_beats d)"
  shows "\<exists>ps. fst (snd (do_sync ops (dm_provider d) (dm_registry d))) = add_all (add_micro_joules sm) r ps
    \<and> sum_deltas ps = measured_uj d"
proof -
  obtain ps where "dm_registry d = add_all (add_micro_joules sm) r ps"
    "sum_deltas ps + attributed_uj (pending_of (dm_provider d)) = measured_uj d"
    using steps_adds [OF assms] by blast
  then show ?thesis
    by (intro exI [of _ "ps @ map attr_add (pending_of (dm_provider d))"])
       (simp add: sync_adds add_all_append attributed_uj_def)
qed

end

section \<open>Sealing what was accumulated\<close>

lemma total_is_registry_uj:
  assumes "skip_map sm sm_inv" and "registry_inv sm sm_inv r" and "registry_uj sm r \<le> u64_max"
  shows "unat (total_micro_joules sm r) = registry_uj sm r"
  using skip_map.total_micro_joules_sum [OF assms(1,2)] assms(3) by (simp add: registry_uj_def)

lemma registry_uj_new: "skip_map sm sm_inv \<Longrightarrow> registry_uj sm (registry_new sm) = 0"
  by (simp add: registry_uj_def registry_get_def registry_new_def skip_map.new_get)

lemma seal_of_adds:
  assumes "skip_map sm sm_inv" and "ed25519_laws ed" and "json_laws js"
    and "r = add_all (add_micro_joules sm) (registry_new sm) ps" and "sum_deltas ps \<le> u64_max"
  shows "\<exists>sl. seal ed js h signer as serial (total_micro_joules sm r) i = Ok sl
    \<and> verify_seal ed js sl = Ok () \<and> unat (pl_total_micro_joules (seal_payload sl)) = sum_deltas ps"
proof -
  have inv: "registry_inv sm sm_inv (registry_new sm)" by (rule skip_map.registry_inv_new [OF assms(1)])
  have "registry_uj sm r = sum_deltas ps"
    using skip_map.registry_uj_add_all [OF assms(1) inv, of ps] assms(4,5) registry_uj_new [OF assms(1)] by simp
  moreover have "registry_inv sm sm_inv r"
    unfolding assms(4) using energy_registry.inv_add_all [OF energy_registry_of_skip_map [OF assms(1)] inv] .
  ultimately have total: "unat (total_micro_joules sm r) = sum_deltas ps"
    using total_is_registry_uj [OF assms(1)] assms(5) by simp
  obtain sl where sl: "seal ed js h signer as serial (total_micro_joules sm r) i = Ok sl"
    using seal_total [OF assms(3)] by blast
  then show ?thesis using seal_accepted [OF assms(2) sl] total by (simp add: seal_ok(4) [OF sl])
qed

context daemon
begin

lemma seals_everything:
  assumes "skip_map sm sm_inv" and "ed25519_laws ed" and "json_laws js"
    and "daemon_steps ops (daemon_start p (registry_new sm)) d" and "pending_of p = []"
    and "list_all pids_fit (dm_beats d)" and "measured_uj d \<le> u64_max"
  shows "registry_uj sm (dm_registry d) + attributed_uj (pending_of (dm_provider d)) = measured_uj d
    \<and> (\<exists>sl. seal ed js h signer as serial
          (total_micro_joules sm (fst (snd (do_sync ops (dm_provider d) (dm_registry d))))) i = Ok sl
        \<and> verify_seal ed js sl = Ok ()
        \<and> unat (pl_total_micro_joules (seal_payload sl)) = measured_uj d)"
proof -
  have inv: "registry_inv sm sm_inv (registry_new sm)" by (rule skip_map.registry_inv_new [OF assms(1)])
  obtain ps where ps: "dm_registry d = add_all (add_micro_joules sm) (registry_new sm) ps"
    "sum_deltas ps + attributed_uj (pending_of (dm_provider d)) = measured_uj d"
    using steps_adds [OF assms(4-6)] by blast
  have "registry_uj sm (dm_registry d) = sum_deltas ps"
    using skip_map.registry_uj_add_all [OF assms(1) inv, of ps] ps assms(7) registry_uj_new [OF assms(1)] by simp
  moreover obtain qs where "fst (snd (do_sync ops (dm_provider d) (dm_registry d)))
      = add_all (add_micro_joules sm) (registry_new sm) qs" "sum_deltas qs = measured_uj d"
    using synced_adds [OF assms(4-6)] by blast
  ultimately show ?thesis
    using ps(2) assms(7) seal_of_adds [OF assms(1,2,3), of _ qs] by simp
qed

end

section \<open>The loop as a sequence of accumulations\<close>

lemma sampling_tick_adds:
  assumes "pids_fit (snd (sampling_tick sm ops e s))"
  shows "\<exists>ps. sl_registry (fst (sampling_tick sm ops e s)) = add_all (add_micro_joules sm) (sl_registry s) ps
    \<and> sum_deltas ps = heartbeat_uj (snd (sampling_tick sm ops e s))"
proof -
  obtain p res where sample: "trait_sample_power_state ops e (sl_provider s) = (p, res)" by fastforce
  show ?thesis
  proof (cases "is_ok res \<and> previous_snapshot s \<noteq> None")
    case True
    then obtain snap prev where c: "res = Ok snap" "previous_snapshot s = Some prev"
      unfolding is_ok_iff by blast
    let ?d = "window_energy_uj (baseline_burst_power_uw (snap_active_power_uw snap) (snap_idle_power_uw snap))
      (sat_sub (snap_observed_at_ns snap) (snap_observed_at_ns prev))"
    have "length (trait_active_pids ops p) \<le> u64_max"
      using assms by (simp add: sampling_tick_def sample c Let_def)
    then show ?thesis
      by (intro exI [of _ "fan_out_adds (trait_active_pids ops p) ?d"])
         (simp add: sampling_tick_def sample c Let_def fan_out_eq_add_all sum_fan_out_adds)
  next
    case False
    then show ?thesis
      by (intro exI [of _ "[]"])
         (auto simp: sampling_tick_def sample is_ok_def split: sum.splits option.splits)
  qed
qed

lemma sampling_run_adds:
  "list_all pids_fit (snd (sampling_run sm ops es s)) \<Longrightarrow>
   \<exists>ps. sl_registry (fst (sampling_run sm ops es s)) = add_all (add_micro_joules sm) (sl_registry s) ps
     \<and> sum_deltas ps = sum_list (map heartbeat_uj (snd (sampling_run sm ops es s)))"
proof (induction es arbitrary: s)
  case Nil
  show ?case by (intro exI [of _ "[]"]) simp
next
  case (Cons e es)
  obtain s1 h where tick: "sampling_tick sm ops e s = (s1, h)" by fastforce
  obtain s2 hs where run: "sampling_run sm ops es s1 = (s2, hs)" by fastforce
  obtain ps where ps: "sl_registry s1 = add_all (add_micro_joules sm) (sl_registry s) ps" "sum_deltas ps = heartbeat_uj h"
    using sampling_tick_adds [of sm ops e s] Cons.prems by (auto simp: tick run)
  obtain qs where qs: "sl_registry s2 = add_all (add_micro_joules sm) (sl_registry s1) qs"
    "sum_deltas qs = sum_list (map heartbeat_uj hs)"
    using Cons.IH [of s1] Cons.prems by (auto simp: tick run)
  show ?case
    by (intro exI [of _ "ps @ qs"]) (simp add: tick run ps qs add_all_append)
qed

text \<open>What every sample of a provider keeps, a run of the loop keeps.\<close>

lemma sampling_run_keeps:
  assumes "\<And>e p. f (fst (trait_sample_power_state ops e p)) = f p"
  shows "f (sl_provider (fst (sampling_run sm ops es s))) = f (sl_provider s)"
proof (induction es arbitrary: s)
  case (Cons e es)
  have "f (sl_provider (fst (sampling_tick sm ops e s))) = f (sl_provider s)"
    using assms [of e "sl_provider s"]
    by (auto simp: sampling_tick_def Let_def split: prod.splits sum.splits option.splits)
  then show ?case using Cons [of "fst (sampling_tick sm ops e s)"] by (simp add: case_prod_unfold)
qed simp

definition loop_session ::
  "'t skip_map_ops \<Rightarrow> ('p, 'e, 't) provider_ops \<Rightarrow> 'e list \<Rightarrow> 'p \<Rightarrow> 't AmalgafyRegistry
     \<Rightarrow> ('p \<times> 't AmalgafyRegistry \<times> heartbeat list) option" where
  "loop_session sm ops es p r =
     (case sampling_run sm ops es (sampling_start p r) of (s, hs) \<Rightarrow> Some (sl_provider s, sl_registry s, hs))"

lemma loop_session_laws:
  assumes "loop_session sm ops es p r = Some (p', r', hs)"
  shows "(\<And>e p. f (fst (trait_sample_power_state ops e p)) = f p) \<Longrightarrow> f p' = f p"
    and "list_all pids_fit hs \<Longrightarrow>
      \<exists>ps. r' = add_all (add_micro_joules sm) r ps \<and> sum_deltas ps = sum_list (map heartbeat_uj hs)"
  using assms sampling_run_keeps [of f ops sm es "sampling_start p r"] sampling_run_adds [of sm ops es "sampling_start p r"]
  by (auto simp: loop_session_def sampling_start_def split: prod.splits)

section \<open>The Linux daemon\<close>

datatype linux_event = FenceEvent fence_op | QueueAttribution PidEnergyAttribution

fun linux_event_apply :: "linux_event \<Rightarrow> LinuxProvider \<Rightarrow> LinuxProvider" where
  "linux_event_apply (FenceEvent op) p = linux_apply p op"
| "linux_event_apply (QueueAttribution a) p = linux_enqueue_attribution p a"

fun linux_event_emits :: "linux_event \<Rightarrow> LinuxProvider \<Rightarrow> PidEnergyAttribution list" where
  "linux_event_emits (FenceEvent (FenceSignaled e)) p = [snd (correlate_fence p e)]"
| "linux_event_emits (FenceEvent _) p = []"
| "linux_event_emits (QueueAttribution a) p = [a]"

definition linux_daemon_ops ::
  "'t skip_map_ops \<Rightarrow> (LinuxProvider, host, linux_event, unit, 't) daemon_ops" where
  "linux_daemon_ops sm =
     \<lparr>do_loop = loop_session sm (linux_ops sm), do_event = linux_event_apply, event_emits = linux_event_emits,
      do_window = (\<lambda>_ _ _. None), do_sync = linux_sync_registry sm\<rparr>"

lemma linux_sample_pending: "lp_pending (fst (linux_sample_power_state h p)) = lp_pending p"
  by (simp add: linux_sample_power_state_def read_rapl_power_uw_def Let_def split: sum.split)

lemma linux_event_pending: "lp_pending (linux_event_apply op p) = lp_pending p @ linux_event_emits op p"
  by (induction op p rule: linux_event_emits.induct)
     (simp_all add: correlate_fence_def mark_pid_active_def mark_pid_idle_def linux_enqueue_attribution_def Let_def)

interpretation linux_daemon: daemon sm "linux_daemon_ops sm" lp_pending for sm
proof
  fix es p r p' r' hs
  assume "do_loop (linux_daemon_ops sm) es p r = Some (p', r', hs)"
  then have s: "loop_session sm (linux_ops sm) es p r = Some (p', r', hs)" by (simp add: linux_daemon_ops_def)
  show "lp_pending p' = lp_pending p"
    using loop_session_laws(1) [OF s, of lp_pending] by (simp add: linux_sample_pending)
  show "list_all pids_fit hs \<Longrightarrow>
      \<exists>ps. r' = add_all (add_micro_joules sm) r ps \<and> sum_deltas ps = sum_list (map heartbeat_uj hs)"
    by (rule loop_session_laws(2) [OF s])
qed (use lin.sync_drains lin.sync_adds in
      \<open>simp_all add: linux_daemon_ops_def linux_event_pending linux_pending_def\<close>)

section \<open>The Apple Silicon daemon\<close>

datatype apple_event =
    SetActivePids "u32 list"
  | SetIdlePower u64
  | DiscoverChannels
  | AppleQueueAttribution PidEnergyAttribution

fun apple_event_apply :: "'w ioreport_ops \<Rightarrow> apple_event \<Rightarrow> AppleSiliconProvider \<times> 'w \<Rightarrow> AppleSiliconProvider \<times> 'w" where
  "apple_event_apply io (SetActivePids pids) (p, w) = (set_active_pids p pids, w)"
| "apple_event_apply io (SetIdlePower idle) (p, w) = (set_idle_power_uw p idle, w)"
| "apple_event_apply io DiscoverChannels (p, w) = (p, snd (discover_gpu_ane_channels io p w))"
| "apple_event_apply io (AppleQueueAttribution a) (p, w) = (apple_enqueue_attribution p a, w)"

fun apple_event_emits :: "apple_event \<Rightarrow> AppleSiliconProvider \<times> 'w \<Rightarrow> PidEnergyAttribution list" where
  "apple_event_emits (AppleQueueAttribution a) pw = [a]"
| "apple_event_emits _ pw = []"

definition apple_daemon_ops ::
  "'t skip_map_ops \<Rightarrow> 'w ioreport_ops \<Rightarrow> (AppleSiliconProvider \<times> 'w, host, apple_event, unit, 't) daemon_ops" where
  "apple_daemon_ops sm io =
     \<lparr>do_loop = loop_session sm (apple_ops sm io), do_event = apple_event_apply io, event_emits = apple_event_emits,
      do_window = (\<lambda>_ _ _. None), do_sync = trait_sync_registry (apple_ops sm io)\<rparr>"

abbreviation apple_pending :: "AppleSiliconProvider \<times> 'w \<Rightarrow> PidEnergyAttribution list" where
  "apple_pending pw \<equiv> ap_pending (fst pw)"

lemma sample_keeps_pending: "ap_pending (fst (fst (sample_energy_model_delta io p w))) = ap_pending p"
  by (simp add: sample_energy_model_delta_def seed_ioreport_def read_ioreport_delta_def scoped_def drop_after_def Let_def
      split: option.split prod.split sum.split)

lemma apple_sample_pending: "apple_pending (fst (apple_sample_power_state io h pw)) = apple_pending pw"
  using sample_keeps_pending [of io "fst pw" "snd pw"]
  by (auto simp: apple_sample_power_state_def Let_def split: prod.splits sum.splits)

lemma apple_event_pending: "apple_pending (apple_event_apply io op pw) = apple_pending pw @ apple_event_emits op pw"
  by (cases pw; cases op) (simp_all add: set_active_pids_def set_idle_power_uw_def apple_enqueue_attribution_def)

interpretation apple_daemon: daemon sm "apple_daemon_ops sm io" apple_pending for sm io
proof
  fix es p r p' r' hs
  assume "do_loop (apple_daemon_ops sm io) es p r = Some (p', r', hs)"
  then have s: "loop_session sm (apple_ops sm io) es p r = Some (p', r', hs)" by (simp add: apple_daemon_ops_def)
  show "apple_pending p' = apple_pending p"
    using loop_session_laws(1) [OF s, of apple_pending] by (simp add: apple_sample_pending apple_ops_def)
  show "list_all pids_fit hs \<Longrightarrow>
      \<exists>ps. r' = add_all (add_micro_joules sm) r ps \<and> sum_deltas ps = sum_list (map heartbeat_uj hs)"
    by (rule loop_session_laws(2) [OF s])
qed (use app.sync_drains app.sync_adds in
      \<open>auto simp: apple_daemon_ops_def apple_event_pending apple_ops_def split_beta\<close>)

section \<open>Active sets of a Linux provider are machine-sized\<close>

lemma active_pid_set_fits: "linux_inv p \<Longrightarrow> length (active_pid_set p) \<le> u64_max"
proof -
  assume "linux_inv p"
  then have "distinct (active_pid_set p)"
    using active_pid_set_sorted strict_sorted_iff by blast
  then have "length (active_pid_set p) = card (set (active_pid_set p))" by (simp add: distinct_card)
  also have "\<dots> \<le> card (UNIV :: u32 set)" by (rule card_mono) simp_all
  finally show ?thesis by (simp add: card_word)
qed

lemma linux_inv_active: "lp_active_pids p' = lp_active_pids p \<Longrightarrow> linux_inv p' \<longleftrightarrow> linux_inv p"
  by (simp add: linux_inv_def)

lemma linux_daemon_fits:
  "daemon_steps (linux_daemon_ops sm) (daemon_start (linux_new sig) r) d \<Longrightarrow>
   linux_inv (dm_provider d) \<and> list_all pids_fit (dm_beats d)"
proof (induction rule: rtranclp_induct)
  case base
  show ?case by (simp add: daemon_start_def linux_inv_new)
next
  case (step d d')
  from step.hyps(2) show ?case
  proof cases
    case (daemon_loop es p r' hs)
    then have run: "loop_session sm (linux_ops sm) es (dm_provider d) (dm_registry d) = Some (p, r', hs)"
      by (simp add: linux_daemon_ops_def)
    have "lp_active_pids p = lp_active_pids (dm_provider d)"
      using loop_session_laws(1) [OF run, of lp_active_pids] by (simp add: linux_sample_active)
    moreover have "list_all pids_fit hs"
      using linux_run_pids_fit [of "sampling_start (dm_provider d) (dm_registry d)" sm es] run
        active_pid_set_fits [OF conjunct1 [OF step.IH]]
      by (simp add: loop_session_def sampling_start_def split: prod.splits)
    ultimately show ?thesis using daemon_loop(1) step.IH linux_inv_active [of p "dm_provider d"] by simp
  next
    case (daemon_event op)
    have "linux_inv (linux_event_apply op (dm_provider d))"
      using step.IH linux_inv_apply linux_inv_active [of "linux_enqueue_attribution (dm_provider d) a" "dm_provider d" for a]
      by (cases op) (simp_all add: linux_enqueue_attribution_def)
    then show ?thesis using daemon_event step.IH by (simp add: linux_daemon_ops_def)
  next
    case (daemon_window w p r' as)
    then show ?thesis by (simp add: linux_daemon_ops_def)
  next
    case (daemon_sync p r' res)
    then have "lp_active_pids p = lp_active_pids (dm_provider d)"
      by (auto simp: linux_daemon_ops_def linux_sync_registry_def split: prod.splits)
    then show ?thesis using daemon_sync(1) step.IH linux_inv_active [of p "dm_provider d"] by simp
  qed
qed

section \<open>Properties\<close>

text \<open>
  C6.  Every micro-joule a Linux daemon measures is sealed exactly once.  Whatever sequence of
  sampling loops, fence events, queued attributions and synchronisations a daemon performs
  on a new provider and an empty registry: at every moment the registry and the pending
  queue together hold exactly the energy of all heartbeats and queued attributions, and
  after a final synchronisation the seal over the registry's total verifies and carries
  exactly that energy.
\<close>

theorem linux_daemon_seals_everything:
  assumes "skip_map sm sm_inv" and "ed25519_laws ed" and "json_laws js"
    and "daemon_steps (linux_daemon_ops sm) (daemon_start (linux_new sig) (registry_new sm)) d"
    and "measured_uj d \<le> u64_max"
  shows "registry_uj sm (dm_registry d) + attributed_uj (lp_pending (dm_provider d)) = measured_uj d
    \<and> (\<exists>sl. seal ed js h signer as serial
          (total_micro_joules sm (fst (snd (linux_sync_registry sm (dm_provider d) (dm_registry d))))) i = Ok sl
        \<and> verify_seal ed js sl = Ok ()
        \<and> unat (pl_total_micro_joules (seal_payload sl)) = measured_uj d)"
  using linux_daemon.seals_everything [OF assms(1-4) _ conjunct2 [OF linux_daemon_fits [OF assms(4)]] assms(5)]
  by (simp add: linux_new_def linux_daemon_ops_def)

text \<open>A daemon that correlates one fence and synchronises.\<close>

definition fence_daemon :: "(LinuxProvider, (u32 \<times> cell_ref) list) daemon_state" where
  "fence_daemon =
     \<lparr>dm_provider = fst (correlate_fence (linux_new ''NV-H100'') example_fence),
      dm_registry = registry_new btree_skip_map, dm_beats = [],
      dm_queued = [snd (correlate_fence (linux_new ''NV-H100'') example_fence)], dm_direct = []\<rparr>"

lemma fence_daemon_reached:
  "daemon_steps (linux_daemon_ops btree_skip_map)
     (daemon_start (linux_new ''NV-H100'') (registry_new btree_skip_map)) fence_daemon"
  using daemon_event [of "linux_daemon_ops btree_skip_map"
      "daemon_start (linux_new ''NV-H100'') (registry_new btree_skip_map)" "FenceEvent (FenceSignaled example_fence)"]
  by (intro r_into_rtranclp) (simp add: daemon_start_def fence_daemon_def linux_daemon_ops_def)

lemma measured_fence_daemon: "measured_uj fence_daemon = 50000000"
  by (simp add: measured_uj_def beats_uj_def attributed_uj_def fence_daemon_def correlate_fence_def example_fence_def
      window_energy_uj_def NANOSECONDS_PER_SECOND_def sat_sub_def sat_add_def sat_mul_def Let_def)

theorem linux_daemon_seals_everything_witness:
  "\<exists>sl. seal small_ed25519 small_json (bare_host 1) (signer_new 3) [] ''GPU''
     (total_micro_joules btree_skip_map (fst (snd (linux_sync_registry btree_skip_map
        (dm_provider fence_daemon) (dm_registry fence_daemon))))) (manual ''GPU'') = Ok sl
     \<and> verify_seal small_ed25519 small_json sl = Ok ()
     \<and> unat (pl_total_micro_joules (seal_payload sl)) = 50000000"
proof -
  show ?thesis
    using linux_daemon_seals_everything [OF btree.skip_map_axioms small_ed25519_laws small_json_laws
        fence_daemon_reached]
    unfolding measured_fence_daemon by simp
qed

text \<open>And for an Apple Silicon daemon.\<close>

theorem apple_daemon_seals_everything:
  assumes "skip_map sm sm_inv" and "ed25519_laws ed" and "json_laws js"
    and "daemon_steps (apple_daemon_ops sm io)
      (daemon_start (apple_with_idle_power_uw sig idle_uw, w) (registry_new sm)) d"
    and "list_all pids_fit (dm_beats d)" and "measured_uj d \<le> u64_max"
  shows "registry_uj sm (dm_registry d) + attributed_uj (apple_pending (dm_provider d)) = measured_uj d
    \<and> (\<exists>sl. seal ed js h signer as serial
          (total_micro_joules sm (fst (snd (apple_sync_registry sm (fst (dm_provider d)) (dm_registry d))))) i = Ok sl
        \<and> verify_seal ed js sl = Ok ()
        \<and> unat (pl_total_micro_joules (seal_payload sl)) = measured_uj d)"
  using apple_daemon.seals_everything [OF assms(1-4) _ assms(5,6)]
  by (simp add: apple_with_idle_power_uw_def apple_daemon_ops_def apple_ops_def split_beta)

end
