(* ===== verification/Linux_History.thy ===== *)
theory Linux_History
  imports Daemon
begin

text \<open>
  A Linux daemon from its first to its last call: sampling loops that are started, dropped and
  started again on one provider, ticks that fail to read the RAPL counter, fence events,
  queued attributions and synchronisations.  The provider keeps its last reading across
  loops; the loop forgets its last sample.  The theorem bounds the energy of the whole
  history by what the counter recorded and follows it into the seal.
\<close>

section \<open>The RAPL counter over a whole history\<close>

datatype linux_call =
    RunLoop "(host \<times> u64 option) list"   \<comment> \<open>a sampling loop over ticks that read the counter or fail to\<close>
  | Feed linux_event
  | SyncRegistry

fun linux_call_apply ::
  "'t skip_map_ops \<Rightarrow> linux_call \<Rightarrow> (LinuxProvider, 't) daemon_state \<Rightarrow> (LinuxProvider, 't) daemon_state" where
  "linux_call_apply sm (RunLoop ticks) d =
     (case sampling_run sm (linux_ops sm) (map fst ticks) (sampling_start (dm_provider d) (dm_registry d)) of
        (s, hs) \<Rightarrow> d\<lparr>dm_provider := sl_provider s, dm_registry := sl_registry s, dm_beats := dm_beats d @ hs\<rparr>)"
| "linux_call_apply sm (Feed op) d =
     d\<lparr>dm_provider := linux_event_apply op (dm_provider d),
       dm_queued := dm_queued d @ linux_event_emits op (dm_provider d)\<rparr>"
| "linux_call_apply sm SyncRegistry d =
     (case linux_sync_registry sm (dm_provider d) (dm_registry d) of
        (p, r, res) \<Rightarrow> d\<lparr>dm_provider := p, dm_registry := r\<rparr>)"

fun call_ticks :: "linux_call \<Rightarrow> (host \<times> u64 option) list" where
  "call_ticks (RunLoop ticks) = ticks"
| "call_ticks _ = []"

lemma linux_call_step: "daemon_step (linux_daemon_ops sm) d (linux_call_apply sm c d)"
proof (cases c)
  case (RunLoop ticks)
  obtain s hs where "sampling_run sm (linux_ops sm) (map fst ticks) (sampling_start (dm_provider d) (dm_registry d)) = (s, hs)"
    by fastforce
  then show ?thesis
    using daemon_loop [of "linux_daemon_ops sm" "map fst ticks" d "sl_provider s" "sl_registry s" hs]
    by (simp add: RunLoop linux_daemon_ops_def loop_session_def)
next
  case (Feed op)
  then show ?thesis using daemon_event [of "linux_daemon_ops sm" d op] by (simp add: linux_daemon_ops_def)
next
  case SyncRegistry
  obtain p r res where "linux_sync_registry sm (dm_provider d) (dm_registry d) = (p, r, res)" by (metis surj_pair)
  then show ?thesis
    using daemon_sync [of "linux_daemon_ops sm" d p r res] by (simp add: SyncRegistry linux_daemon_ops_def)
qed

lemma linux_calls_steps: "daemon_steps (linux_daemon_ops sm) d (fold (linux_call_apply sm) cs d)"
proof (induction cs arbitrary: d)
  case (Cons c cs)
  have "daemon_step (linux_daemon_ops sm) d (linux_call_apply sm c d)" by (rule linux_call_step)
  then show ?case using Cons by (simp add: converse_rtranclp_into_rtranclp [where r = "daemon_step (linux_daemon_ops sm)"])
qed simp

text \<open>A loop leaves the provider with the last successful reading.\<close>

definition latest :: "u64 option \<Rightarrow> u64 list \<Rightarrow> u64 option" where
  "latest e es = (if es = [] then e else Some (last es))"

lemma recorded_from_append:
  "recorded_from range_max e (xs @ ys) = recorded_from range_max e xs + recorded_from range_max (latest e xs) ys"
proof -
  have some: "rapl_recorded range_max e (xs @ ys) = rapl_recorded range_max e xs + recorded_from range_max (latest (Some e) xs) ys" for e xs
    by (induction xs arbitrary: e) (simp_all add: latest_def)
  show ?thesis
  proof (cases e)
    case None
    then show ?thesis using some [of "hd xs" "tl xs"] by (cases xs) (simp_all add: latest_def split: if_splits)
  qed (simp add: some)
qed

lemma linux_run_known:
  assumes "range_max \<noteq> U64_MAX"
  shows "rapl_known range_max s \<Longrightarrow> list_all (rapl_tick range_max) ticks \<Longrightarrow>
    sampling_run sm (linux_ops sm) (map fst ticks) s = (s', hs) \<Longrightarrow>
    rapl_known range_max s' \<and> last_reading (sl_provider s') = latest (last_reading (sl_provider s)) (readings ticks)"
proof (induction ticks arbitrary: s hs)
  case (Cons t ticks)
  obtain h e where t: "t = (h, e)" by (cases t)
  obtain s1 hb where tick: "sampling_tick sm (linux_ops sm) h s = (s1, hb)" by fastforce
  obtain hs' where run: "sampling_run sm (linux_ops sm) (map fst ticks) s1 = (s', hs')"
    using Cons.prems(3) by (auto simp: t tick split: prod.splits)
  show ?case
  proof (cases e)
    case None
    have "rapl_unreadable h" using Cons.prems(2) by (simp add: t None)
    note U = linux_tick_unreadable [OF this tick]
    have "rapl_known range_max s1" using Cons.prems(1) U by (simp add: rapl_known_def)
    then show ?thesis
      using Cons.IH [OF _ _ run] Cons.prems(2) U by (simp add: t None List.map_filter_simps)
  next
    case (Some x)
    have "rapl_reads h x range_max" "x \<le> range_max" using Cons.prems(2) by (simp_all add: t Some)
    note R = linux_tick_reading [OF assms Cons.prems(1) this tick]
    show ?thesis
      using Cons.IH [OF R(1) _ run] Cons.prems(2) R(2) by (simp add: t Some List.map_filter_simps latest_def)
  qed
qed (simp add: latest_def List.map_filter_simps)

definition provider_known :: "u64 \<Rightarrow> LinuxProvider \<Rightarrow> bool" where
  "provider_known range_max p \<longleftrightarrow>
     (\<forall>st. lp_rapl_state p = Some st \<longrightarrow> rapl_max_energy_uj st = range_max \<and> rapl_energy_uj st \<le> range_max)"

lemma linux_event_rapl [simp]: "lp_rapl_state (linux_event_apply op p) = lp_rapl_state p"
  by (induction op p rule: linux_event_emits.induct)
     (simp_all add: correlate_fence_def mark_pid_active_def mark_pid_idle_def linux_enqueue_attribution_def Let_def)

lemma linux_call_bound:
  assumes "range_max \<noteq> U64_MAX" and "provider_known range_max (dm_provider d)" and "list_all (rapl_tick range_max) (call_ticks c)"
  shows "provider_known range_max (dm_provider (linux_call_apply sm c d))"
    and "last_reading (dm_provider (linux_call_apply sm c d)) = latest (last_reading (dm_provider d)) (readings (call_ticks c))"
    and "beats_uj (linux_call_apply sm c d) \<le> beats_uj d + recorded_from range_max (last_reading (dm_provider d)) (readings (call_ticks c))"
proof -
  have "provider_known range_max (dm_provider (linux_call_apply sm c d))
    \<and> last_reading (dm_provider (linux_call_apply sm c d)) = latest (last_reading (dm_provider d)) (readings (call_ticks c))
    \<and> beats_uj (linux_call_apply sm c d) \<le> beats_uj d + recorded_from range_max (last_reading (dm_provider d)) (readings (call_ticks c))"
  proof (cases c)
    case (RunLoop ticks)
    let ?s = "sampling_start (dm_provider d) (dm_registry d)"
    obtain s' hs where run: "sampling_run sm (linux_ops sm) (map fst ticks) ?s = (s', hs)" by fastforce
    have known: "rapl_known range_max ?s" and p: "sl_provider ?s = dm_provider d"
      using assms(2) by (simp_all add: rapl_known_def provider_known_def sampling_start_def)
    have ticks: "list_all (rapl_tick range_max) ticks" using assms(3) by (simp add: RunLoop)
    show ?thesis
      using linux_run_known [OF assms(1) known ticks run] linux_run_bounded_general [OF assms(1) known ticks, of sm]
      by (simp add: RunLoop run p beats_uj_def rapl_known_def provider_known_def)
  next
    case (Feed op)
    then show ?thesis using assms(2) by (simp add: provider_known_def last_reading_def latest_def beats_uj_def List.map_filter_simps)
  next
    case SyncRegistry
    then show ?thesis
      using assms(2) by (simp add: provider_known_def last_reading_def latest_def beats_uj_def linux_sync_registry_def
          split_beta List.map_filter_simps)
  qed
  then show "provider_known range_max (dm_provider (linux_call_apply sm c d))"
    and "last_reading (dm_provider (linux_call_apply sm c d)) = latest (last_reading (dm_provider d)) (readings (call_ticks c))"
    and "beats_uj (linux_call_apply sm c d) \<le> beats_uj d + recorded_from range_max (last_reading (dm_provider d)) (readings (call_ticks c))"
    by blast+
qed

lemma linux_calls_bound:
  assumes "range_max \<noteq> U64_MAX"
  shows "provider_known range_max (dm_provider d) \<Longrightarrow> list_all (\<lambda>c. list_all (rapl_tick range_max) (call_ticks c)) cs \<Longrightarrow>
    beats_uj (fold (linux_call_apply sm) cs d)
      \<le> beats_uj d + recorded_from range_max (last_reading (dm_provider d)) (concat (map (readings \<circ> call_ticks) cs))"
proof (induction cs arbitrary: d)
  case (Cons c cs)
  note C = linux_call_bound [OF assms Cons.prems(1), of c sm]
  show ?case
    using Cons.IH [of "linux_call_apply sm c d"] C Cons.prems(2) by (simp add: recorded_from_append)
qed (simp add: recorded_from_append)

lemma linux_direct: "daemon_steps (linux_daemon_ops sm) (daemon_start p r) d \<Longrightarrow> dm_direct d = []"
proof (induction rule: rtranclp_induct)
  case (step d d')
  from step.hyps(2) step.IH show ?case by cases (auto simp: linux_daemon_ops_def)
qed (simp add: daemon_start_def)

section \<open>Properties\<close>

text \<open>
  C5.  A whole history against the counter.  A Linux daemon runs the sampling loop any number
  of times on one provider, with fence events, queued attributions and synchronisations in
  between, and with ticks that fail to read the counter.  The heartbeats of all loops
  together bill at most what the RAPL counter recorded from the first to the last reading
  of the history, across restarts and counter wraps, and the seal after a final
  synchronisation carries exactly that energy plus the energy of the queued attributions.
\<close>

theorem linux_history_bounded_by_rapl:
  fixes cs :: "linux_call list" and sm :: "'t skip_map_ops" and sig :: string and range_max :: u64
  assumes "skip_map sm sm_inv" and "ed25519_laws ed" and "json_laws js" and "range_max \<noteq> U64_MAX"
    and "list_all (\<lambda>c. list_all (rapl_tick range_max) (call_ticks c)) cs"
  defines "d \<equiv> fold (linux_call_apply sm) cs (daemon_start (linux_new sig) (registry_new sm))"
  defines "recorded \<equiv> recorded_from range_max None (concat (map (readings \<circ> call_ticks) cs))"
  assumes "recorded + attributed_uj (dm_queued d) \<le> u64_max"
  shows "beats_uj d \<le> recorded
    \<and> (\<exists>sl. seal ed js h signer as serial
          (total_micro_joules sm (fst (snd (linux_sync_registry sm (dm_provider d) (dm_registry d))))) i = Ok sl
        \<and> verify_seal ed js sl = Ok ()
        \<and> unat (pl_total_micro_joules (seal_payload sl)) = beats_uj d + attributed_uj (dm_queued d))"
proof -
  let ?d0 = "daemon_start (linux_new sig) (registry_new sm)"
  have steps: "daemon_steps (linux_daemon_ops sm) ?d0 d" unfolding d_def by (rule linux_calls_steps)
  have "provider_known range_max (dm_provider ?d0)" "last_reading (dm_provider ?d0) = None" "beats_uj ?d0 = 0"
    by (simp_all add: provider_known_def last_reading_def daemon_start_def linux_new_def beats_uj_def)
  then have bound: "beats_uj d \<le> recorded"
    unfolding d_def recorded_def using linux_calls_bound [OF assms(4), of ?d0 cs sm] assms(5) by simp
  have m: "measured_uj d = beats_uj d + attributed_uj (dm_queued d)"
    using linux_direct [OF steps] by (simp add: measured_uj_def)
  have "measured_uj d \<le> u64_max" using bound assms(8) m by linarith
  moreover have "lp_pending (linux_new sig) = []" by (simp add: linux_new_def)
  ultimately show ?thesis
    using linux_daemon.seals_everything [OF assms(1-3) steps _ conjunct2 [OF linux_daemon_fits [OF steps]]] bound m
    by (simp add: linux_daemon_ops_def)
qed

text \<open>Two loops with a fence between them; the second loop loses one tick.\<close>

definition example_calls :: "linux_call list" where
  "example_calls =
     [RunLoop [(sysfs_host 990 999 1000000000, Some 990), (sysfs_host 15 999 1100000000, Some 15)],
      Feed (FenceEvent (FenceSignaled example_fence)),
      RunLoop [(bare_sysfs, None), (sysfs_host 40 999 1300000000, Some 40)]]"

lemma example_calls_queued:
  "attributed_uj (dm_queued (fold (linux_call_apply sm) example_calls (daemon_start (linux_new sig) r))) = 50000000"
  by (simp add: example_calls_def daemon_start_def attributed_uj_def split_beta correlate_fence_def example_fence_def
      window_energy_uj_def NANOSECONDS_PER_SECOND_def sat_sub_def sat_add_def sat_mul_def Let_def)

theorem linux_history_bounded_by_rapl_witness:
  "beats_uj (fold (linux_call_apply btree_skip_map) example_calls
     (daemon_start (linux_new ''CPU'') (registry_new btree_skip_map))) \<le> 50"
proof -
  have "list_all (\<lambda>c. list_all (rapl_tick 999) (call_ticks c)) example_calls" by (simp add: example_calls_def)
  moreover have "recorded_from 999 None (concat (map (readings \<circ> call_ticks) example_calls)) = 50"
    by (simp add: example_calls_def counter_distance_def List.map_filter_simps)
  ultimately show ?thesis
    using linux_history_bounded_by_rapl [OF btree.skip_map_axioms small_ed25519_laws small_json_laws,
        where range_max = 999 and cs = example_calls and sig = "''CPU''"]
    by (simp add: example_calls_queued)
qed

end
