(* ===== verification/Windows_Provider.thy ===== *)
theory Windows_Provider
  imports Provider Hardware
begin

text \<open>
  The Windows provider, \<open>src/providers/windows.rs\<close>.  NVML is not part of the repository:
  the record \<open>nvml\<close> says what its entry points answer during one call of the provider (a
  status code and the out-parameters; the process query may answer differently on every
  attempt), together with the host for the clock.  Reserving room in the scratch \<open>Vec\<close> is
  modelled with the standard library's growth strategy.

  The process query is a \<open>loop\<close> that retries with a larger buffer.  It is a
  \<^theory_text>\<open>partial_function (option)\<close>, \<open>None\<close> meaning that it never returns; a panic is the value
  \<open>Panicked\<close>.  The theorems show when it returns, and that it does not once more than the
  buffer's processes are running.
\<close>

section \<open>Data\<close>

record NvmlProcessInfoV3 =
  info_pid :: u32
  info_used_gpu_memory :: u64
  info_gpu_instance_id :: u32
  info_compute_instance_id :: u32

record NvmlComputeProcess =
  cp_pid :: u32
  cp_used_gpu_memory_bytes :: u64
  cp_gpu_instance_id :: u32
  cp_compute_instance_id :: u32

record nvml =
  nvmlInit_v2 :: i32
  nvmlDeviceGetCount_v2 :: "i32 \<times> u32"
  nvmlDeviceGetHandleByIndex_v2 :: "u32 \<Rightarrow> i32 \<times> c_ref"
  nvmlDeviceGetSerial :: "c_ref \<Rightarrow> nat \<Rightarrow> i32 \<times> string"
  nvmlDeviceGetUUID :: "c_ref \<Rightarrow> nat \<Rightarrow> i32 \<times> string"
  nvmlDeviceGetPowerUsage :: "c_ref \<Rightarrow> i32 \<times> u32"
  nvmlDeviceGetComputeRunningProcesses_v3 ::
    "nat \<Rightarrow> c_ref \<Rightarrow> u32 \<Rightarrow> i32 \<times> u32 \<times> NvmlProcessInfoV3 list"
  nvmlErrorString :: "i32 \<Rightarrow> string option"
  nvml_host :: host

definition NVML_SUCCESS :: i32 where
  "NVML_SUCCESS = 0"

definition NVML_ERROR_INSUFFICIENT_SIZE :: i32 where
  "NVML_ERROR_INSUFFICIENT_SIZE = 7"

definition NVML_DEVICE_UUID_BUFFER_SIZE :: nat where
  "NVML_DEVICE_UUID_BUFFER_SIZE = 80"

definition NVML_DEVICE_SERIAL_BUFFER_SIZE :: nat where
  "NVML_DEVICE_SERIAL_BUFFER_SIZE = 30"

text \<open>A \<open>Vec\<close>: its elements and its capacity.  \<open>Vec::reserve\<close> counts from the length.\<close>

record 'a vec =
  vec_items :: "'a list"
  vec_capacity :: nat

definition vec_with_capacity :: "nat \<Rightarrow> 'a vec" where
  "vec_with_capacity n = \<lparr>vec_items = [], vec_capacity = n\<rparr>"

definition vec_reserve :: "'a vec \<Rightarrow> nat \<Rightarrow> 'a vec" where
  "vec_reserve v additional =
     (let needed = length (vec_items v) + additional in
      if needed \<le> vec_capacity v then v
      else v\<lparr>vec_capacity := max 4 (max (2 * vec_capacity v) needed)\<rparr>)"

record GpuBusyState =
  last_sample_ns :: u64
  last_pids :: "u32 list"

record WindowsProvider =
  wp_hardware_signature :: string
  wp_signature_source :: HardwareIdentitySource
  wp_device_index :: u32
  wp_device_handle :: c_ref
  wp_busy_state :: GpuBusyState
  wp_compute_scratch :: "NvmlProcessInfoV3 vec"
  wp_pending :: "PidEnergyAttribution list"

text \<open>Sequencing of calls that may panic or never return.\<close>

definition exec_bind :: "'a exec option \<Rightarrow> ('a \<Rightarrow> 'b exec option) \<Rightarrow> 'b exec option" where
  "exec_bind x f =
     (case x of None \<Rightarrow> None | Some Panicked \<Rightarrow> Some Panicked | Some (Finished a) \<Rightarrow> f a)"

lemma exec_bind_simps [simp]:
  "exec_bind None f = None"
  "exec_bind (Some Panicked) f = Some Panicked"
  "exec_bind (Some (Finished a)) f = f a"
  by (simp_all add: exec_bind_def)

section \<open>Initialisation\<close>

text \<open>The process-wide statics \<open>NVML_INIT\<close> and \<open>NVML_INIT_RESULT\<close>.\<close>

record nvml_statics =
  nvml_init_done :: bool
  nvml_init_result :: i32

definition nvml_statics_initial :: nvml_statics where
  "nvml_statics_initial = \<lparr>nvml_init_done = False, nvml_init_result = NVML_SUCCESS\<rparr>"

definition nvml_error_string :: "nvml \<Rightarrow> i32 \<Rightarrow> string" where
  "nvml_error_string e code =
     (case nvmlErrorString e code of
        None \<Rightarrow> ''nvml error '' @ show_int (sint code)
      | Some text \<Rightarrow> to_string_lossy (CStr_from_ptr text))"

definition ensure_nvml_initialized :: "nvml \<Rightarrow> nvml_statics \<Rightarrow> nvml_statics \<times> unit result" where
  "ensure_nvml_initialized e st =
     (let st' = (if nvml_init_done st then st
                 else \<lparr>nvml_init_done = True, nvml_init_result = nvmlInit_v2 e\<rparr>);
          res = nvml_init_result st'
      in (st', if res \<noteq> NVML_SUCCESS then Err (''nvmlInit_v2 failed: '' @ nvml_error_string e res)
               else Ok ()))"

definition check_nvml :: "nvml \<Rightarrow> i32 \<Rightarrow> string \<Rightarrow> unit result" where
  "check_nvml e code ctxt =
     (if code = NVML_SUCCESS then Ok () else Err (ctxt @ '': '' @ nvml_error_string e code))"

definition read_nvml_serial :: "nvml \<Rightarrow> c_ref \<Rightarrow> string result" where
  "read_nvml_serial e handle =
     (case nvmlDeviceGetSerial e handle NVML_DEVICE_SERIAL_BUFFER_SIZE of
        (code, buf) \<Rightarrow>
          (case check_nvml e code ''nvmlDeviceGetSerial'' of
             Inl err \<Rightarrow> Err err
           | Inr _ \<Rightarrow> Ok (to_string_lossy (CStr_from_ptr buf))))"

definition read_nvml_uuid :: "nvml \<Rightarrow> c_ref \<Rightarrow> string result" where
  "read_nvml_uuid e handle =
     (case nvmlDeviceGetUUID e handle NVML_DEVICE_UUID_BUFFER_SIZE of
        (code, buf) \<Rightarrow>
          (case check_nvml e code ''nvmlDeviceGetUUID'' of
             Inl err \<Rightarrow> Err err
           | Inr _ \<Rightarrow> Ok (to_string_lossy (CStr_from_ptr buf))))"

definition windows_new :: "nvml \<Rightarrow> u32 \<Rightarrow> nvml_statics \<Rightarrow> nvml_statics \<times> WindowsProvider result" where
  "windows_new e device_index st =
     (case ensure_nvml_initialized e st of
        (st', Inl err) \<Rightarrow> (st', Err err)
      | (st', Inr _) \<Rightarrow>
          (case nvmlDeviceGetHandleByIndex_v2 e device_index of (code, handle) \<Rightarrow>
           case check_nvml e code ''nvmlDeviceGetHandleByIndex_v2'' of
             Inl err \<Rightarrow> (st', Err err)
           | Inr _ \<Rightarrow>
               let (signature, source) =
                     (case read_nvml_serial e handle of
                        Inr s \<Rightarrow> (s, WindowsNvmlSerial)
                      | Inl _ \<Rightarrow>
                          (case read_nvml_uuid e handle of
                             Inr uuid \<Rightarrow> (uuid, WindowsNvmlUuid)
                           | Inl _ \<Rightarrow> (''nvml-device-'' @ show_nat (unat device_index), Synthetic)))
               in (st', Ok \<lparr>wp_hardware_signature = signature, wp_signature_source = source,
                            wp_device_index = device_index, wp_device_handle = handle,
                            wp_busy_state = \<lparr>last_sample_ns = 0, last_pids = []\<rparr>,
                            wp_compute_scratch = vec_with_capacity 32, wp_pending = []\<rparr>)))"

definition device_count :: "nvml \<Rightarrow> nvml_statics \<Rightarrow> nvml_statics \<times> u32 result" where
  "device_count e st =
     (case ensure_nvml_initialized e st of
        (st', Inl err) \<Rightarrow> (st', Err err)
      | (st', Inr _) \<Rightarrow>
          (case nvmlDeviceGetCount_v2 e of (code, n) \<Rightarrow>
           case check_nvml e code ''nvmlDeviceGetCount_v2'' of
             Inl err \<Rightarrow> (st', Err err)
           | Inr _ \<Rightarrow> (st', Ok n)))"

definition hardware_signature_string :: "WindowsProvider \<Rightarrow> string" where
  "hardware_signature_string p = wp_hardware_signature p"

definition signature_source :: "WindowsProvider \<Rightarrow> HardwareIdentitySource" where
  "signature_source p = wp_signature_source p"

text \<open>Dropping a provider leaves NVML initialised.\<close>

definition windows_drop :: "WindowsProvider \<Rightarrow> nvml_statics \<Rightarrow> nvml_statics" where
  "windows_drop p st = st"

section \<open>Reading the device\<close>

definition read_power_mw :: "nvml \<Rightarrow> WindowsProvider \<Rightarrow> u32 result" where
  "read_power_mw e p =
     (case nvmlDeviceGetPowerUsage e (wp_device_handle p) of (code, milliwatts) \<Rightarrow>
      case check_nvml e code ''nvmlDeviceGetPowerUsage'' of
        Inl err \<Rightarrow> Err err
      | Inr _ \<Rightarrow> Ok milliwatts)"

definition read_power_uw :: "nvml \<Rightarrow> WindowsProvider \<Rightarrow> u64 result" where
  "read_power_uw e p =
     (case read_power_mw e p of Inl err \<Rightarrow> Err err | Inr mw \<Rightarrow> Ok (u64_from mw * 1000))"

text \<open>
  The retry loop.  The attempt number only selects what NVML answers.  When NVML reports a
  required count below the capacity, the subtraction overflows: a panic, or, with wrapping
  arithmetic, a reservation so large that \<open>reserve\<close> itself panics.
\<close>

partial_function (option) compute_loop ::
  "nvml \<Rightarrow> c_ref \<Rightarrow> nat \<Rightarrow> NvmlProcessInfoV3 vec \<Rightarrow> (NvmlProcessInfoV3 vec \<times> unit result) exec option" where
  "compute_loop e handle attempt scratch =
     (case nvmlDeviceGetComputeRunningProcesses_v3 e attempt handle (of_nat (vec_capacity scratch)) of
        (code, cnt, infos) \<Rightarrow>
          if code = NVML_ERROR_INSUFFICIENT_SIZE then
            if unat cnt < vec_capacity scratch then Some Panicked
            else compute_loop e handle (attempt + 1)
                   (vec_reserve scratch (unat cnt - vec_capacity scratch))
          else case check_nvml e code ''nvmlDeviceGetComputeRunningProcesses_v3'' of
              Inl err \<Rightarrow> Some (Finished (scratch, Err err))
            | Inr _ \<Rightarrow> Some (Finished (scratch\<lparr>vec_items := take (unat cnt) infos\<rparr>, Ok ())))"

definition sample_compute_processes ::
  "nvml \<Rightarrow> WindowsProvider \<Rightarrow> (WindowsProvider \<times> NvmlProcessInfoV3 list result) exec option" where
  "sample_compute_processes e p =
     exec_bind (compute_loop e (wp_device_handle p) 0 (wp_compute_scratch p)) (\<lambda>(scratch, res).
       Some (Finished (p\<lparr>wp_compute_scratch := scratch\<rparr>,
                       case res of Inl err \<Rightarrow> Err err | Inr _ \<Rightarrow> Ok (vec_items scratch))))"

definition list_compute_processes ::
  "nvml \<Rightarrow> WindowsProvider \<Rightarrow> (WindowsProvider \<times> NvmlComputeProcess list result) exec option" where
  "list_compute_processes e p =
     exec_bind (sample_compute_processes e p) (\<lambda>(p', res).
       Some (Finished (p', case res of
           Inl err \<Rightarrow> Err err
         | Inr raw \<Rightarrow> Ok (map (\<lambda>i. \<lparr>cp_pid = info_pid i,
                                     cp_used_gpu_memory_bytes = info_used_gpu_memory i,
                                     cp_gpu_instance_id = info_gpu_instance_id i,
                                     cp_compute_instance_id = info_compute_instance_id i\<rparr>) raw))))"

definition windows_enqueue_attribution :: "WindowsProvider \<Rightarrow> PidEnergyAttribution \<Rightarrow> WindowsProvider" where
  "windows_enqueue_attribution p a = p\<lparr>wp_pending := wp_pending p @ [a]\<rparr>"

section \<open>Attributing a window\<close>

definition windows_attribution :: "WindowsProvider \<Rightarrow> u64 \<Rightarrow> u64 \<Rightarrow> u64 \<Rightarrow> u32 \<Rightarrow> u64 \<Rightarrow> PidEnergyAttribution" where
  "windows_attribution p window_start_ns window_end_ns burst_power_uw pid attributed =
     \<lparr>attr_pid = pid, attr_window_start_ns = window_start_ns, attr_window_end_ns = window_end_ns,
      attr_burst_power_uw = burst_power_uw, attr_attributed_energy_uj = attributed,
      attr_hardware_signature = wp_hardware_signature p\<rparr>"

text \<open>The loop of \<open>sample_window_energy\<close>: the remainder counts down, results are pushed.\<close>

fun window_split_loop ::
  "'t skip_map_ops \<Rightarrow> (u32 \<Rightarrow> u64 \<Rightarrow> PidEnergyAttribution) \<Rightarrow> u64 \<Rightarrow> u64 \<Rightarrow> NvmlProcessInfoV3 list
     \<Rightarrow> 't AmalgafyRegistry \<Rightarrow> PidEnergyAttribution list \<Rightarrow> 't AmalgafyRegistry \<times> PidEnergyAttribution list" where
  "window_split_loop sm mk share remainder [] r result = (r, result)"
| "window_split_loop sm mk share remainder (proc # procs) r result =
     (case (if remainder > 0 then (remainder - 1, 1) else (remainder, 0)) of
        (remainder', extra) \<Rightarrow>
          let attributed = share + extra in
          window_split_loop sm mk share remainder' procs
            (fst (add_micro_joules sm r (info_pid proc) attributed))
            (result @ [mk (info_pid proc) attributed]))"

definition sample_window_energy ::
  "'t skip_map_ops \<Rightarrow> nvml \<Rightarrow> WindowsProvider \<Rightarrow> u64 \<Rightarrow> u64 \<Rightarrow> u64 \<Rightarrow> 't AmalgafyRegistry
     \<Rightarrow> (WindowsProvider \<times> 't AmalgafyRegistry \<times> PidEnergyAttribution list result) exec option" where
  "sample_window_energy sm e p window_start_ns window_end_ns dt_ms r =
     (case read_power_mw e p of
        Inl err \<Rightarrow> Some (Finished (p, r, Err err))
      | Inr power_mw \<Rightarrow>
          exec_bind (sample_compute_processes e p) (\<lambda>(p, res).
            case res of
              Inl err \<Rightarrow> Some (Finished (p, r, Err err))
            | Inr processes \<Rightarrow>
                let total_window_uj = nvml_window_energy_uj (u64_from power_mw) dt_ms in
                if processes = [] \<or> total_window_uj = 0 then Some (Finished (p, r, Ok []))
                else let num_processes = of_nat (length processes);
                         share = total_window_uj div num_processes;
                         remainder = total_window_uj - share * num_processes;
                         burst_power_uw = u64_from power_mw * 1000;
                         (r', result) =
                           window_split_loop sm (windows_attribution p window_start_ns window_end_ns burst_power_uw)
                             share remainder processes r []
                     in Some (Finished
                          (p\<lparr>wp_busy_state := \<lparr>last_sample_ns = window_end_ns,
                                              last_pids = map attr_pid result\<rparr>\<rparr>,
                           r', Ok result))))"

fun attribute_window_loop ::
  "'t skip_map_ops \<Rightarrow> (u32 \<Rightarrow> u64 \<Rightarrow> PidEnergyAttribution) \<Rightarrow> u64 \<Rightarrow> u64 \<Rightarrow> u64 \<Rightarrow> u64 \<Rightarrow> NvmlProcessInfoV3 list
     \<Rightarrow> 't AmalgafyRegistry \<Rightarrow> PidEnergyAttribution list \<Rightarrow> 't AmalgafyRegistry \<times> PidEnergyAttribution list" where
  "attribute_window_loop sm mk total_power_uw idle_power_uw per_process_ns window_ns [] r result = (r, result)"
| "attribute_window_loop sm mk total_power_uw idle_power_uw per_process_ns window_ns (proc # procs) r result =
     (let attributed =
            deterministic_attribution_uj total_power_uw idle_power_uw per_process_ns window_ns
      in attribute_window_loop sm mk total_power_uw idle_power_uw per_process_ns window_ns procs
           (fst (add_micro_joules sm r (info_pid proc) attributed))
           (result @ [mk (info_pid proc) attributed]))"

definition attribute_window ::
  "'t skip_map_ops \<Rightarrow> nvml \<Rightarrow> WindowsProvider \<Rightarrow> u64 \<Rightarrow> u64 \<Rightarrow> u64 \<Rightarrow> 't AmalgafyRegistry
     \<Rightarrow> (WindowsProvider \<times> 't AmalgafyRegistry \<times> PidEnergyAttribution list result) exec option" where
  "attribute_window sm e p window_start_ns window_end_ns idle_power_uw r =
     (case read_power_uw e p of
        Inl err \<Rightarrow> Some (Finished (p, r, Err err))
      | Inr total_power_uw \<Rightarrow>
          exec_bind (sample_compute_processes e p) (\<lambda>(p, res).
            case res of
              Inl err \<Rightarrow> Some (Finished (p, r, Err err))
            | Inr processes \<Rightarrow>
                if processes = [] then Some (Finished (p, r, Ok []))
                else let window_ns = sat_sub window_end_ns window_start_ns;
                         num_processes = of_nat (length processes);
                         per_process_ns = window_ns div num_processes;
                         (r', result) =
                           attribute_window_loop sm
                             (windows_attribution p window_start_ns window_end_ns
                               (sat_sub total_power_uw idle_power_uw))
                             total_power_uw idle_power_uw per_process_ns window_ns processes r []
                     in Some (Finished
                          (p\<lparr>wp_busy_state := \<lparr>last_sample_ns = window_end_ns,
                                              last_pids = map attr_pid result\<rparr>\<rparr>,
                           r', Ok result))))"

section \<open>The trait implementation\<close>

definition windows_sample_power_state ::
  "nvml \<Rightarrow> WindowsProvider \<Rightarrow> (WindowsProvider \<times> PowerSnapshot result) exec option" where
  "windows_sample_power_state e p =
     (case read_power_uw e p of
        Inl err \<Rightarrow> Some (Finished (p, Err err))
      | Inr power_uw \<Rightarrow>
          let observed_at_ns = now_ns_or U64_MAX (nvml_host e) in
          exec_bind (sample_compute_processes e p) (\<lambda>(p, res).
            let p = (case res of
                Inr procs \<Rightarrow> p\<lparr>wp_busy_state := \<lparr>last_sample_ns = observed_at_ns,
                                                   last_pids = map info_pid procs\<rparr>\<rparr>
              | Inl _ \<Rightarrow> p)
            in Some (Finished (p, Ok \<lparr>snap_observed_at_ns = observed_at_ns, snap_idle_power_uw = 0,
                 snap_active_power_uw = power_uw, snap_cpu_power_uw = 0, snap_gpu_power_uw = power_uw,
                 snap_accelerator_power_uw = power_uw,
                 snap_hardware_signature = wp_hardware_signature p\<rparr>))))"

definition windows_attribute_joules_to_pid ::
  "WindowsProvider \<Rightarrow> u32 \<Rightarrow> u64 \<Rightarrow> u64 \<Rightarrow> PowerSnapshot \<Rightarrow> WindowsProvider \<times> PidEnergyAttribution result" where
  "windows_attribute_joules_to_pid p pid window_start_ns window_end_ns snap =
     (p, Ok (baseline_burst pid window_start_ns window_end_ns snap))"

definition windows_sync_registry ::
  "'t skip_map_ops \<Rightarrow> WindowsProvider \<Rightarrow> 't AmalgafyRegistry
     \<Rightarrow> WindowsProvider \<times> 't AmalgafyRegistry \<times> u64 result" where
  "windows_sync_registry sm p r =
     (case drain_pending sm (wp_pending p) r 0 of
        (r', total_uj) \<Rightarrow> (p\<lparr>wp_pending := []\<rparr>, r', Ok total_uj))"

definition windows_active_pids :: "WindowsProvider \<Rightarrow> u32 list" where
  "windows_active_pids p = last_pids (wp_busy_state p)"

interpretation win: pending_provider sm wp_pending windows_enqueue_attribution "windows_sync_registry sm"
  for sm
  by unfold_locales
     (simp_all add: windows_enqueue_attribution_def windows_sync_registry_def split_beta)

section \<open>The process query\<close>

text \<open>
  NVML's documented behaviour with a fixed set of running processes: a buffer that is
  large enough is filled, any other is refused with the required count.
\<close>

definition nvml_running :: "nvml \<Rightarrow> c_ref \<Rightarrow> NvmlProcessInfoV3 list \<Rightarrow> bool" where
  "nvml_running e handle procs \<longleftrightarrow>
     length procs < 2 ^ 32
     \<and> (\<forall>attempt cap. nvmlDeviceGetComputeRunningProcesses_v3 e attempt handle cap =
          (if length procs \<le> unat cap then (NVML_SUCCESS, of_nat (length procs), procs)
           else (NVML_ERROR_INSUFFICIENT_SIZE, of_nat (length procs), [])))"

lemma unat_of_nat_u32: "n < 2 ^ 32 \<Longrightarrow> unat (of_nat n :: u32) = n"
  by (simp add: unat_of_nat)

text \<open>One query with a large enough buffer.\<close>

lemma compute_loop_returns:
  assumes "nvml_running e handle procs" and "length procs \<le> vec_capacity v" and "vec_capacity v < 2 ^ 32"
  shows "compute_loop e handle attempt v = Some (Finished (v\<lparr>vec_items := procs\<rparr>, Ok ()))"
proof -
  have "length procs < 2 ^ 32" using assms(1) by (simp add: nvml_running_def)
  with assms show ?thesis
    by (subst compute_loop.simps)
       (simp add: nvml_running_def check_nvml_def NVML_SUCCESS_def NVML_ERROR_INSUFFICIENT_SIZE_def
          unat_of_nat_u32)
qed

text \<open>
  \<open>reserve\<close> counts from the length of the buffer, which is that of the previous answer, while
  the requested amount is what is missing in capacity.  When the buffer is more than half
  as large as length and demand together, nothing is reserved and the next attempt is
  the same; one reservation always leads there unless it already sufficed.
\<close>

definition can_grow :: "nat \<Rightarrow> 'a vec \<Rightarrow> bool" where
  "can_grow n v \<longleftrightarrow>
     2 * vec_capacity v < length (vec_items v) + n
     \<and> (n \<le> 2 * vec_capacity v \<or> length (vec_items v) = vec_capacity v)"

definition wf_vec :: "'a vec \<Rightarrow> bool" where
  "wf_vec v \<longleftrightarrow> length (vec_items v) \<le> vec_capacity v \<and> 2 \<le> vec_capacity v \<and> vec_capacity v < 2 ^ 31"

definition too_small :: "nat \<Rightarrow> 'a vec \<Rightarrow> bool" where
  "too_small n v \<longleftrightarrow>
     length (vec_items v) \<le> vec_capacity v \<and> 2 \<le> vec_capacity v \<and> vec_capacity v < n \<and> \<not> can_grow n v"

lemma too_small_reserve:
  "too_small n v \<Longrightarrow> too_small n (vec_reserve v (n - vec_capacity v))"
  by (auto simp: too_small_def can_grow_def vec_reserve_def Let_def max_def)

lemma can_grow_reserve:
  assumes "can_grow n v" and "wf_vec v" and "vec_capacity v < n"
  shows "vec_reserve v (n - vec_capacity v)
      = v\<lparr>vec_capacity := max (2 * vec_capacity v) (length (vec_items v) + n - vec_capacity v)\<rparr>"
    and "n \<le> max (2 * vec_capacity v) (length (vec_items v) + n - vec_capacity v)"
  using assms by (auto simp: can_grow_def wf_vec_def vec_reserve_def Let_def max_def)

lemma compute_loop_stuck:
  assumes "nvml_running e handle procs"
    and "compute_loop e' handle' attempt v = Some out"
  shows "e' = e \<longrightarrow> handle' = handle \<longrightarrow> \<not> too_small (length procs) v"
proof (rule compute_loop.raw_induct
    [where P = "\<lambda>e' handle' attempt v out. e' = e \<longrightarrow> handle' = handle \<longrightarrow> \<not> too_small (length procs) v",
      OF _ assms(2)], intro impI notI)
  fix f e' handle' attempt v out
  assume IH: "\<And>e' handle' attempt v out. f e' handle' attempt v = Some out \<Longrightarrow>
      e' = e \<longrightarrow> handle' = handle \<longrightarrow> \<not> too_small (length procs) v"
    and eq: "(case nvmlDeviceGetComputeRunningProcesses_v3 e' attempt handle' (of_nat (vec_capacity v)) of
        (code, cnt, infos) \<Rightarrow>
          if code = NVML_ERROR_INSUFFICIENT_SIZE then
            if unat cnt < vec_capacity v then Some Panicked
            else f e' handle' (attempt + 1) (vec_reserve v (unat cnt - vec_capacity v))
          else case check_nvml e' code ''nvmlDeviceGetComputeRunningProcesses_v3'' of
              Inl err \<Rightarrow> Some (Finished (v, Err err))
            | Inr _ \<Rightarrow> Some (Finished (v\<lparr>vec_items := take (unat cnt) infos\<rparr>, Ok ()))) = Some out"
    and e: "e' = e" "handle' = handle" and small: "too_small (length procs) v"
  have len: "length procs < 2 ^ 32" using assms(1) by (simp add: nvml_running_def)
  have cap: "vec_capacity v < length procs" using small by (simp add: too_small_def)
  then have "vec_capacity v < 2 ^ 32" using len by linarith
  with len cap have "f e handle (attempt + 1) (vec_reserve v (length procs - vec_capacity v)) = Some out"
    using eq assms(1) by (simp add: e nvml_running_def unat_of_nat_u32)
  then show False using IH too_small_reserve [OF small] by blast
qed

lemma compute_loop_diverges:
  "nvml_running e handle procs \<Longrightarrow> too_small (length procs) v \<Longrightarrow> compute_loop e handle attempt v = None"
  using compute_loop_stuck by (cases "compute_loop e handle attempt v") blast+

text \<open>The exact condition under which the query returns.\<close>

lemma compute_loop_result:
  assumes "nvml_running e handle procs" and "wf_vec v"
  shows "compute_loop e handle attempt v =
    (if length procs \<le> vec_capacity v then Some (Finished (v\<lparr>vec_items := procs\<rparr>, Ok ()))
     else if can_grow (length procs) v
     then Some (Finished (\<lparr>vec_items = procs, vec_capacity =
            max (2 * vec_capacity v) (length (vec_items v) + length procs - vec_capacity v)\<rparr>, Ok ()))
     else None)"
proof -
  let ?n = "length procs"
  have n: "?n < 2 ^ 32" using assms(1) by (simp add: nvml_running_def)
  have cap: "vec_capacity v < 2 ^ 31" "length (vec_items v) \<le> vec_capacity v" "2 \<le> vec_capacity v"
    using assms(2) by (simp_all add: wf_vec_def)
  consider "?n \<le> vec_capacity v" | "vec_capacity v < ?n" "can_grow ?n v" | "too_small ?n v"
    using cap by (force simp: too_small_def)
  then show ?thesis
  proof cases
    case 1
    then show ?thesis using compute_loop_returns [OF assms(1)] cap(1) by simp
  next
    case 2
    note G = can_grow_reserve [OF 2(2) assms(2) 2(1)]
    have "max (2 * vec_capacity v) (length (vec_items v) + ?n - vec_capacity v) < 2 ^ 32"
      using n cap by simp
    then have "compute_loop e handle (attempt + 1) (vec_reserve v (?n - vec_capacity v)) =
        Some (Finished ((vec_reserve v (?n - vec_capacity v))\<lparr>vec_items := procs\<rparr>, Ok ()))"
      using G by (intro compute_loop_returns [OF assms(1)]) simp_all
    moreover have "compute_loop e handle attempt v
        = compute_loop e handle (attempt + 1) (vec_reserve v (?n - vec_capacity v))"
      using assms(1) 2(1) n cap(1)
      by (subst compute_loop.simps) (simp add: nvml_running_def unat_of_nat_u32)
    ultimately show ?thesis using 2 by (simp add: G(1))
  next
    case 3
    then show ?thesis
      using compute_loop_diverges [OF assms(1)] by (simp add: too_small_def)
  qed
qed

lemma sample_compute_processes_returns:
  assumes "nvml_running e (wp_device_handle p) procs"
    and "length procs \<le> vec_capacity (wp_compute_scratch p)" and "vec_capacity (wp_compute_scratch p) < 2 ^ 32"
  shows "sample_compute_processes e p =
    Some (Finished (p\<lparr>wp_compute_scratch := wp_compute_scratch p\<lparr>vec_items := procs\<rparr>\<rparr>, Ok procs))"
  by (simp add: sample_compute_processes_def compute_loop_returns [OF assms])

section \<open>Splitting a window\<close>

lemma window_split_loop_eq:
  "window_split_loop sm mk share remainder procs r result =
     (add_all (add_micro_joules sm) r (split_shares share remainder (map info_pid procs)),
      result @ map (\<lambda>(pid, d). mk pid d) (split_shares share remainder (map info_pid procs)))"
  by (induction procs arbitrary: remainder r result) (simp_all add: Let_def)

lemma split_shares_eq_fan_out_adds:
  assumes "pids \<noteq> []" and "length pids \<le> u64_max"
  shows "split_shares (t div of_nat (length pids)) (t - t div of_nat (length pids) * of_nat (length pids)) pids
           = fan_out_adds pids t"
proof -
  let ?n = "of_nat (length pids) :: u64"
  have n: "unat ?n = length pids" using assms(2) by (simp add: unat_of_nat)
  have "unat t div length pids * length pids < 2 ^ LENGTH(64)"
    by (rule le_less_trans [OF div_times_less_eq_dividend unsigned_less])
  then have "unat (t div ?n) * unat ?n < 2 ^ LENGTH(64)" by (simp add: unat_div n)
  then have "sat_mul (t div ?n) ?n = t div ?n * ?n" by (simp add: sat_mul_def)
  then show ?thesis using assms(1) by (simp add: fan_out_adds_def Let_def)
qed

lemma attribute_window_loop_eq:
  "attribute_window_loop sm mk tp ip pn w procs r result =
     (add_all (add_micro_joules sm) r (map (\<lambda>i. (info_pid i, deterministic_attribution_uj tp ip pn w)) procs),
      result @ map (\<lambda>i. mk (info_pid i) (deterministic_attribution_uj tp ip pn w)) procs)"
  by (induction procs arbitrary: r result) (simp_all add: Let_def)

lemma attr_windows_attribution [simp]:
  "attr_pid (windows_attribution p s t b pid d) = pid"
  "attr_attributed_energy_uj (windows_attribution p s t b pid d) = d"
  by (simp_all add: windows_attribution_def)

text \<open>The exact energy of an equal time share, and what all shares together amount to.\<close>

lemma equal_share_energy:
  assumes "n \<noteq> 0" and "n \<le> u64_max" and "w \<noteq> 0"
  shows "unat (deterministic_attribution_uj tp ip (w div of_nat n) w)
      = min ((unat tp - unat ip) * (unat w div n) div 1000000000) u64_max"
    and "n * unat (deterministic_attribution_uj tp ip (w div of_nat n) w)
      \<le> (unat tp - unat ip) * unat w div 1000000000"
proof -
  let ?b = "unat tp - unat ip"
  have n: "unat (of_nat n :: u64) = n" using assms(2) by (simp add: unat_of_nat)
  have "min (unat w div n) (unat w) = unat w div n" by simp
  then show share: "unat (deterministic_attribution_uj tp ip (w div of_nat n) w)
      = min (?b * (unat w div n) div 1000000000) u64_max"
    using assms(3) by (simp add: unat_deterministic_attribution_uj unat_div n unat_eq_zero)
  have "n * unat (deterministic_attribution_uj tp ip (w div of_nat n) w)
      \<le> n * (?b * (unat w div n) div 1000000000)"
    unfolding share by (rule mult_le_mono2) simp
  also have "\<dots> \<le> n * (?b * (unat w div n)) div 1000000000"
  proof -
    have "n * (?b * (unat w div n) div 1000000000) * 1000000000
        = n * (?b * (unat w div n) div 1000000000 * 1000000000)" by simp
    also have "\<dots> \<le> n * (?b * (unat w div n))"
      by (rule mult_le_mono2 [OF div_times_less_eq_dividend])
    finally show ?thesis by (simp add: less_eq_div_iff_mult_less_eq)
  qed
  also have "n * (?b * (unat w div n)) = ?b * (unat w div n * n)" by (simp add: mult_ac)
  also have "?b * (unat w div n * n) div 1000000000 \<le> ?b * unat w div 1000000000"
    by (rule div_le_mono [OF mult_le_mono2 [OF div_times_less_eq_dividend]])
  finally show "n * unat (deterministic_attribution_uj tp ip (w div of_nat n) w)
      \<le> ?b * unat w div 1000000000" .
qed

section \<open>Properties\<close>

text \<open>A device with a given power reading and set of running processes, for the witnesses.\<close>

definition gpu :: "u32 \<Rightarrow> NvmlProcessInfoV3 list \<Rightarrow> nvml" where
  "gpu power_mw procs =
     \<lparr>nvmlInit_v2 = 0, nvmlDeviceGetCount_v2 = (0, 1),
      nvmlDeviceGetHandleByIndex_v2 = (\<lambda>i. (0, 1)),
      nvmlDeviceGetSerial = (\<lambda>h n. (3, replicate n (CHR 0x00))),
      nvmlDeviceGetUUID = (\<lambda>h n. (0, ''GPU-7'' @ replicate (n - 5) (CHR 0x00))),
      nvmlDeviceGetPowerUsage = (\<lambda>h. (0, power_mw)),
      nvmlDeviceGetComputeRunningProcesses_v3 = (\<lambda>attempt h cap.
        if length procs \<le> unat cap then (0, of_nat (length procs), procs)
        else (7, of_nat (length procs), [])),
      nvmlErrorString = (\<lambda>code. None), nvml_host = bare_host 1\<rparr>"

definition gpu_process :: "u32 \<Rightarrow> NvmlProcessInfoV3" where
  "gpu_process pid =
     \<lparr>info_pid = pid, info_used_gpu_memory = 0, info_gpu_instance_id = 0, info_compute_instance_id = 0\<rparr>"

lemma gpu_running: "length procs < 2 ^ 32 \<Longrightarrow> nvml_running (gpu mw procs) h procs"
  by (simp add: nvml_running_def gpu_def NVML_SUCCESS_def NVML_ERROR_INSUFFICIENT_SIZE_def)

definition gpu_provider :: "WindowsProvider" where
  "gpu_provider =
     \<lparr>wp_hardware_signature = ''GPU-7'', wp_signature_source = WindowsNvmlUuid, wp_device_index = 0,
      wp_device_handle = 1, wp_busy_state = \<lparr>last_sample_ns = 0, last_pids = []\<rparr>,
      wp_compute_scratch = vec_with_capacity 32, wp_pending = []\<rparr>"

lemma gpu_provider_capacity: "vec_capacity (wp_compute_scratch gpu_provider) = 32"
  by (simp add: gpu_provider_def vec_with_capacity_def)

lemma gpu_provider_capacity_lt: "vec_capacity (wp_compute_scratch gpu_provider) < 2 ^ 32"
  by (simp add: gpu_provider_capacity)

lemma gpu_power: "nvmlDeviceGetPowerUsage (gpu mw procs) h = (NVML_SUCCESS, mw)"
  by (simp add: gpu_def NVML_SUCCESS_def)

text \<open>
  The process query of a freshly constructed provider returns the running processes
  if there are at most 32 of them; with 33 or more, unchanging, it never returns: the
  buffer is empty, so reserving the missing slots from length zero never makes it large
  enough.  The sampling tick that runs the query then never returns either.
\<close>

theorem compute_query_returns_iff:
  assumes "windows_new e i st = (st', Ok p)" and "nvml_running e (wp_device_handle p) procs"
  shows "sample_compute_processes e p =
      (if length procs \<le> 32
       then Some (Finished (p\<lparr>wp_compute_scratch := \<lparr>vec_items = procs, vec_capacity = 32\<rparr>\<rparr>, Ok procs))
       else None)
    \<and> (read_power_uw e p = Ok uw \<and> 32 < length procs \<longrightarrow> windows_sample_power_state e p = None)"
proof -
  have v: "wp_compute_scratch p = \<lparr>vec_items = [], vec_capacity = 32\<rparr>"
    using assms(1) by (auto simp: windows_new_def vec_with_capacity_def Let_def split: prod.splits sum.splits)
  have q: "sample_compute_processes e p =
      (if length procs \<le> 32
       then Some (Finished (p\<lparr>wp_compute_scratch := \<lparr>vec_items = procs, vec_capacity = 32\<rparr>\<rparr>, Ok procs))
       else None)"
  proof (cases "length procs \<le> 32")
    case True
    then show ?thesis using sample_compute_processes_returns [OF assms(2)] by (simp add: v)
  next
    case False
    then have "too_small (length procs) (wp_compute_scratch p)" by (simp add: too_small_def can_grow_def v)
    then show ?thesis using False
      by (simp add: sample_compute_processes_def compute_loop_diverges [OF assms(2)])
  qed
  then show ?thesis by (auto simp: windows_sample_power_state_def Let_def)
qed

lemma windows_new_gpu:
  "windows_new (gpu mw procs) 0 nvml_statics_initial = (\<lparr>nvml_init_done = True, nvml_init_result = 0\<rparr>, Ok gpu_provider)"
  by (simp add: windows_new_def ensure_nvml_initialized_def nvml_statics_initial_def check_nvml_def
      read_nvml_serial_def read_nvml_uuid_def gpu_def gpu_provider_def NVML_SUCCESS_def
      NVML_DEVICE_UUID_BUFFER_SIZE_def CStr_from_ptr_def to_string_lossy_ascii)

theorem compute_query_returns_iff_witness:
  "sample_compute_processes (gpu 250000 (map (gpu_process \<circ> of_nat) [0..<33])) gpu_provider = None
   \<and> windows_sample_power_state (gpu 250000 (map (gpu_process \<circ> of_nat) [0..<33])) gpu_provider = None
   \<and> sample_compute_processes (gpu 250000 [gpu_process 4]) gpu_provider \<noteq> None"
proof -
  have run: "nvml_running (gpu 250000 (map (gpu_process \<circ> of_nat) [0..<33])) (wp_device_handle gpu_provider)
      (map (gpu_process \<circ> of_nat) [0..<33])"
    "nvml_running (gpu 250000 [gpu_process 4]) (wp_device_handle gpu_provider) [gpu_process 4]"
    by (rule gpu_running, simp)+
  have "read_power_uw (gpu 250000 (map (gpu_process \<circ> of_nat) [0..<33])) gpu_provider = Ok (u64_from 250000 * 1000)"
    by (simp add: read_power_uw_def read_power_mw_def gpu_def check_nvml_def NVML_SUCCESS_def)
  then show ?thesis
    using compute_query_returns_iff [OF windows_new_gpu run(1)] compute_query_returns_iff [OF windows_new_gpu run(2)]
    by simp
qed

text \<open>
  C16.  The query of a provider that has sampled before, exactly: with \<open>c\<close> slots, of which
  the previous answer used \<open>length old\<close>, it returns if and only if the processes fit, or
  the one reservation it makes is large enough; otherwise it never returns.  So a jump
  from 1 to 33 processes hangs the provider, growth from 32 to 33 does not.
\<close>

theorem compute_query_after_sample:
  assumes "nvml_running e (wp_device_handle p) procs"
    and "wp_compute_scratch p = \<lparr>vec_items = old, vec_capacity = c\<rparr>"
    and "length old \<le> c" and "2 \<le> c" and "c < 2 ^ 31"
  shows "sample_compute_processes e p =
    (if length procs \<le> c
        \<or> 2 * c < length old + length procs \<and> (length procs \<le> 2 * c \<or> length old = c)
     then Some (Finished (p\<lparr>wp_compute_scratch := \<lparr>vec_items = procs, vec_capacity =
            if length procs \<le> c then c else max (2 * c) (length old + length procs - c)\<rparr>\<rparr>, Ok procs))
     else None)"
proof -
  have "wf_vec (wp_compute_scratch p)" using assms(2-5) by (simp add: wf_vec_def)
  from compute_loop_result [OF assms(1) this] show ?thesis
    using assms(2) by (simp add: sample_compute_processes_def can_grow_def)
qed

theorem compute_query_after_sample_witness:
  "sample_compute_processes (gpu 250000 (map (gpu_process \<circ> of_nat) [0..<33]))
     (gpu_provider\<lparr>wp_compute_scratch := \<lparr>vec_items = [gpu_process 1], vec_capacity = 32\<rparr>\<rparr>) = None
   \<and> sample_compute_processes (gpu 250000 (map (gpu_process \<circ> of_nat) [0..<33]))
     (gpu_provider\<lparr>wp_compute_scratch := \<lparr>vec_items = replicate 32 (gpu_process 1), vec_capacity = 32\<rparr>\<rparr>) \<noteq> None"
proof -
  have run: "nvml_running (gpu 250000 (map (gpu_process \<circ> of_nat) [0..<33])) h
      (map (gpu_process \<circ> of_nat) [0..<33])" for h
    by (rule gpu_running) simp
  show ?thesis
    using compute_query_after_sample [OF run, of "gpu_provider\<lparr>wp_compute_scratch := \<lparr>vec_items = [gpu_process 1],
        vec_capacity = 32\<rparr>\<rparr>" "[gpu_process 1]" 32]
      compute_query_after_sample [OF run, of "gpu_provider\<lparr>wp_compute_scratch := \<lparr>vec_items = replicate 32 (gpu_process 1),
        vec_capacity = 32\<rparr>\<rparr>" "replicate 32 (gpu_process 1)" 32]
    by simp
qed

text \<open>
  NVML is initialised once per process and a failure is permanent: after a first
  construction that found \<open>nvmlInit_v2\<close> failing, every later construction and every device
  count, whatever NVML would answer by then, reports that first failure again.
\<close>

theorem nvml_init_failure_is_permanent:
  assumes "nvmlInit_v2 e \<noteq> NVML_SUCCESS" and "windows_new e i nvml_statics_initial = (st, res)"
  shows "res = Err (''nvmlInit_v2 failed: '' @ nvml_error_string e (nvmlInit_v2 e))
    \<and> windows_new e' j st = (st, Err (''nvmlInit_v2 failed: '' @ nvml_error_string e' (nvmlInit_v2 e)))
    \<and> device_count e' st = (st, Err (''nvmlInit_v2 failed: '' @ nvml_error_string e' (nvmlInit_v2 e)))"
  using assms
  by (auto simp: windows_new_def device_count_def ensure_nvml_initialized_def nvml_statics_initial_def Let_def)

theorem nvml_init_failure_is_permanent_witness:
  "snd (windows_new (gpu 50 []) 0 (fst (windows_new ((gpu 50 [])\<lparr>nvmlInit_v2 := 9\<rparr>) 0 nvml_statics_initial)))
     = Err ''nvmlInit_v2 failed: nvml error 9''"
proof -
  have "nvmlInit_v2 ((gpu 50 [])\<lparr>nvmlInit_v2 := 9\<rparr>) \<noteq> NVML_SUCCESS" by (simp add: NVML_SUCCESS_def)
  from nvml_init_failure_is_permanent [OF this surjective_pairing, of 0 "gpu 50 []" 0]
  have "snd (windows_new (gpu 50 []) 0 (fst (windows_new ((gpu 50 [])\<lparr>nvmlInit_v2 := 9\<rparr>) 0 nvml_statics_initial)))
      = Err (''nvmlInit_v2 failed: '' @ nvml_error_string (gpu 50 []) 9)"
    by simp
  moreover have "nvml_error_string (gpu 50 []) 9 = ''nvml error 9''"
    by (simp add: nvml_error_string_def gpu_def show_int_def show_nat.simps digit_char_def char_of_def bit_0)
  ultimately show ?thesis by simp
qed

lemma read_power_mw_ok:
  "nvmlDeviceGetPowerUsage e (wp_device_handle p) = (NVML_SUCCESS, mw) \<Longrightarrow> read_power_mw e p = Ok mw"
  by (simp add: read_power_mw_def check_nvml_def)

lemma unat_mw_to_uw: "unat (u64_from mw * 1000) = unat mw * 1000"
proof -
  have "unat mw * 1000 < 2 ^ 64" using unat_le_max [of mw] by simp
  then have "unat (u64_from mw) * unat (1000 :: u64) < 2 ^ LENGTH(64)" by simp
  then show ?thesis by (simp only: unat_mult_lem) simp
qed

text \<open>
  C23.  The NVML window energy, power in milliwatts times milliseconds, is split exactly:
  the i-th process receives the quotient plus one micro-joule if it is among the first
  \<open>total mod n\<close>, the returned records and the registry account for the whole energy, and
  the processes become the provider's active set.
\<close>

theorem sample_window_energy_conserves:
  fixes total_uj :: nat
  assumes "skip_map sm sm_inv" and "registry_inv sm sm_inv r"
    and "nvml_running e (wp_device_handle p) procs" and "procs \<noteq> []"
    and "length procs \<le> vec_capacity (wp_compute_scratch p)" and "vec_capacity (wp_compute_scratch p) < 2 ^ 32"
    and "nvmlDeviceGetPowerUsage e (wp_device_handle p) = (NVML_SUCCESS, mw)"
    and "total_uj = min (unat mw * unat dt_ms) u64_max" and "total_uj \<noteq> 0"
    and "registry_uj sm r + total_uj \<le> u64_max"
  shows "\<exists>p' r' result. sample_window_energy sm e p ws we dt_ms r = Some (Finished (p', r', Ok result))
    \<and> map attr_pid result = map info_pid procs
    \<and> map (unat \<circ> attr_attributed_energy_uj) result = map (even_share total_uj (length procs)) [0..<length procs]
    \<and> sum_list (map (unat \<circ> attr_attributed_energy_uj) result) = total_uj
    \<and> registry_uj sm r' = registry_uj sm r + total_uj
    \<and> windows_active_pids p' = map info_pid procs"
proof -
  let ?t = "nvml_window_energy_uj (u64_from mw) dt_ms" and ?pids = "map info_pid procs"
  let ?adds = "fan_out_adds ?pids ?t"
  let ?p = "p\<lparr>wp_compute_scratch := wp_compute_scratch p\<lparr>vec_items := procs\<rparr>\<rparr>"
  let ?mk = "windows_attribution ?p ws we (u64_from mw * 1000)"
  define result where "result = map (\<lambda>(pid, d). ?mk pid d) ?adds"
  have t: "unat ?t = total_uj" by (simp add: u64_nat assms(8))
  have len: "length ?pids \<le> u64_max" "?pids \<noteq> []" using assms(4-6) by auto
  have "?t \<noteq> 0" using t assms(9) by auto
  then have run: "sample_window_energy sm e p ws we dt_ms r =
      Some (Finished (?p\<lparr>wp_busy_state := \<lparr>last_sample_ns = we, last_pids = map attr_pid result\<rparr>\<rparr>,
        add_all (add_micro_joules sm) r ?adds, Ok result))"
    using assms(4) split_shares_eq_fan_out_adds [OF len(2,1), of ?t]
    by (simp add: sample_window_energy_def read_power_mw_ok [OF assms(7)]
        sample_compute_processes_returns [OF assms(3,5,6)] Let_def window_split_loop_eq result_def)
  have lenadds: "length ?adds = length procs" using len(2) by (simp add: fan_out_adds_def Let_def)
  have pids: "map attr_pid result = ?pids"
    by (rule nth_equalityI) (use nth_fan_out_adds(1) len(1) in \<open>simp_all add: result_def lenadds case_prod_unfold\<close>)
  have shares: "map (unat \<circ> attr_attributed_energy_uj) result = map (even_share total_uj (length procs)) [0..<length procs]"
    by (rule nth_equalityI) (use nth_fan_out_adds(2) len(1) in \<open>simp_all add: result_def lenadds case_prod_unfold t\<close>)
  have "sum_list (map (unat \<circ> attr_attributed_energy_uj) result) = sum_deltas ?adds"
    by (simp add: result_def sum_deltas_def comp_def case_prod_unfold)
  moreover have "sum_deltas ?adds = total_uj" using sum_fan_out_adds [OF len(1)] t by simp
  moreover have "registry_uj sm (add_all (add_micro_joules sm) r ?adds) = registry_uj sm r + sum_deltas ?adds"
    using skip_map.registry_uj_add_all [OF assms(1,2)] assms(10) calculation(2) by simp
  ultimately show ?thesis
    using run pids shares by (simp add: windows_active_pids_def)
qed

theorem sample_window_energy_conserves_witness:
  "\<exists>p' r' result. sample_window_energy btree_skip_map (gpu 50 [gpu_process 9, gpu_process 4]) gpu_provider
       0 100000000 101 (registry_new btree_skip_map) = Some (Finished (p', r', Ok result))
     \<and> map attr_pid result = [9, 4] \<and> sum_list (map (unat \<circ> attr_attributed_energy_uj) result) = 5050
     \<and> registry_uj btree_skip_map r' = 5050"
proof -
  have run: "nvml_running (gpu 50 [gpu_process 9, gpu_process 4]) (wp_device_handle gpu_provider)
      [gpu_process 9, gpu_process 4]"
    by (rule gpu_running) simp
  have cap: "length [gpu_process 9, gpu_process 4] \<le> vec_capacity (wp_compute_scratch gpu_provider)"
    by (simp add: gpu_provider_capacity)
  have room: "registry_uj btree_skip_map (registry_new btree_skip_map) + 5050 \<le> u64_max"
    by (simp add: registry_uj_empty)
  have total: "5050 = min (unat (50 :: u32) * unat (101 :: u64)) u64_max" "5050 \<noteq> (0 :: nat)" by simp_all
  obtain p' r' result where
    "sample_window_energy btree_skip_map (gpu 50 [gpu_process 9, gpu_process 4]) gpu_provider
       0 100000000 101 (registry_new btree_skip_map) = Some (Finished (p', r', Ok result))"
    "map attr_pid result = map info_pid [gpu_process 9, gpu_process 4]"
    "sum_list (map (unat \<circ> attr_attributed_energy_uj) result) = 5050"
    "registry_uj btree_skip_map r' = registry_uj btree_skip_map (registry_new btree_skip_map) + 5050"
    using sample_window_energy_conserves [OF btree.skip_map_axioms btree.registry_inv_new run list.distinct(2) cap
          gpu_provider_capacity_lt gpu_power total room, of 0 100000000] by metis
  then show ?thesis by (simp add: registry_uj_empty gpu_process_def)
qed

text \<open>
  C24.  Under the deterministic model every one of the n running processes is charged the
  burst power over an n-th of the window, computed exactly; together they are charged at
  most the burst energy of the whole window, and the registry gains what the records say.
\<close>

theorem attribute_window_conserves:
  fixes window :: u64
  assumes "skip_map sm sm_inv" and "registry_inv sm sm_inv r"
    and "nvml_running e (wp_device_handle p) procs" and "procs \<noteq> []"
    and "length procs \<le> vec_capacity (wp_compute_scratch p)" and "vec_capacity (wp_compute_scratch p) < 2 ^ 32"
    and "nvmlDeviceGetPowerUsage e (wp_device_handle p) = (NVML_SUCCESS, mw)"
    and "window = sat_sub we ws" and "window \<noteq> 0"
    and "registry_uj sm r + (unat mw * 1000 - unat idle) * unat window div 1000000000 \<le> u64_max"
  shows "\<exists>p' r' result charge. attribute_window sm e p ws we idle r = Some (Finished (p', r', Ok result))
    \<and> map attr_pid result = map info_pid procs
    \<and> map (unat \<circ> attr_attributed_energy_uj) result = replicate (length procs) charge
    \<and> charge = min ((unat mw * 1000 - unat idle) * (unat window div length procs) div 1000000000) u64_max
    \<and> sum_list (map (unat \<circ> attr_attributed_energy_uj) result)
        \<le> (unat mw * 1000 - unat idle) * unat window div 1000000000
    \<and> registry_uj sm r' = registry_uj sm r + sum_list (map (unat \<circ> attr_attributed_energy_uj) result)"
proof -
  let ?uw = "u64_from mw * 1000"
  let ?d = "deterministic_attribution_uj ?uw idle (window div of_nat (length procs)) window"
  let ?adds = "map (\<lambda>i. (info_pid i, ?d)) procs"
  let ?p = "p\<lparr>wp_compute_scratch := wp_compute_scratch p\<lparr>vec_items := procs\<rparr>\<rparr>"
  define result where "result = map (\<lambda>i. windows_attribution ?p ws we (sat_sub ?uw idle) (info_pid i) ?d) procs"
  have n: "length procs \<noteq> 0" "length procs \<le> u64_max" using assms(4-6) by auto
  note D = equal_share_energy [OF n assms(9), of ?uw idle, unfolded unat_mw_to_uw]
  have run: "attribute_window sm e p ws we idle r =
      Some (Finished (?p\<lparr>wp_busy_state := \<lparr>last_sample_ns = we, last_pids = map attr_pid result\<rparr>\<rparr>,
        add_all (add_micro_joules sm) r ?adds, Ok result))"
    using assms(4) by (simp add: attribute_window_def read_power_uw_def read_power_mw_ok [OF assms(7)]
        sample_compute_processes_returns [OF assms(3,5,6)] Let_def attribute_window_loop_eq result_def
        flip: assms(8))
  have energies: "map (unat \<circ> attr_attributed_energy_uj) result = replicate (length procs) (unat ?d)"
    by (simp add: result_def comp_def map_replicate_const)
  have sum: "sum_list (map (unat \<circ> attr_attributed_energy_uj) result) = length procs * unat ?d"
    unfolding energies by (simp add: sum_list_replicate)
  have deltas: "sum_deltas ?adds = length procs * unat ?d"
    by (simp add: sum_deltas_def comp_def map_replicate_const sum_list_replicate)
  have "registry_uj sm (add_all (add_micro_joules sm) r ?adds) = registry_uj sm r + sum_deltas ?adds"
    using D(2) assms(10) by (intro skip_map.registry_uj_add_all [OF assms(1,2)]) (simp only: deltas)
  moreover have "map attr_pid result = map info_pid procs" by (simp add: result_def)
  ultimately show ?thesis
    using run energies D(1) D(2) sum deltas
    by (intro exI [of _ "unat ?d"] exI [of _ result] exI conjI) (assumption, assumption, assumption, simp_all only:)
qed

theorem attribute_window_conserves_witness:
  "\<exists>p' r' result. attribute_window btree_skip_map (gpu 8500 [gpu_process 9, gpu_process 4]) gpu_provider
       0 2000000000 3000000 (registry_new btree_skip_map) = Some (Finished (p', r', Ok result))
     \<and> map (unat \<circ> attr_attributed_energy_uj) result = [5500000, 5500000]
     \<and> registry_uj btree_skip_map r' = 11000000"
proof -
  have run: "nvml_running (gpu 8500 [gpu_process 9, gpu_process 4]) (wp_device_handle gpu_provider)
      [gpu_process 9, gpu_process 4]"
    by (rule gpu_running) simp
  have cap: "length [gpu_process 9, gpu_process 4] \<le> vec_capacity (wp_compute_scratch gpu_provider)"
    by (simp add: gpu_provider_capacity)
  have window: "(2000000000 :: u64) = sat_sub 2000000000 0" "(2000000000 :: u64) \<noteq> 0"
    by (simp_all add: sat_sub_def)
  have room: "registry_uj btree_skip_map (registry_new btree_skip_map)
      + (unat (8500 :: u32) * 1000 - unat (3000000 :: u64)) * unat (2000000000 :: u64) div 1000000000 \<le> u64_max"
    by (simp add: registry_uj_empty)
  obtain p' r' result charge where
    "attribute_window btree_skip_map (gpu 8500 [gpu_process 9, gpu_process 4]) gpu_provider
       0 2000000000 3000000 (registry_new btree_skip_map) = Some (Finished (p', r', Ok result))"
    "map (unat \<circ> attr_attributed_energy_uj) result = replicate (length [gpu_process 9, gpu_process 4]) charge"
    "charge = min ((unat (8500 :: u32) * 1000 - unat (3000000 :: u64))
        * (unat (2000000000 :: u64) div length [gpu_process 9, gpu_process 4]) div 1000000000) u64_max"
    "registry_uj btree_skip_map r' = registry_uj btree_skip_map (registry_new btree_skip_map)
        + sum_list (map (unat \<circ> attr_attributed_energy_uj) result)"
    using attribute_window_conserves [OF btree.skip_map_axioms btree.registry_inv_new run list.distinct(2) cap
          gpu_provider_capacity_lt gpu_power window room] by metis
  then show ?thesis by (simp add: registry_uj_empty numeral_2_eq_2 [symmetric])
       (simp add: numeral_2_eq_2)
qed

end
