(* ===== verification/Windows_Run.thy ===== *)
theory Windows_Run
  imports Windows_Provider Ledger
begin

text \<open>
  The sampling loop of \<open>src/core/provider.rs\<close> over the Windows provider.  A sample may panic or
  never return, so a run is a value of \<open>'a exec option\<close>; what a sample that returns has
  computed is handed to the tick of theory \<open>Provider\<close>.  As long as no tick finds more
  processes than the buffer has slots, every run returns and implements the ledger
  specification; one tick that finds too many ends the loop for ever.
\<close>

section \<open>The loop\<close>

definition windows_ops :: "'t skip_map_ops \<Rightarrow> (WindowsProvider, WindowsProvider \<times> PowerSnapshot result, 't) provider_ops" where
  "windows_ops sm =
     \<lparr>trait_sample_power_state = (\<lambda>outcome p. outcome),
      trait_attribute_joules_to_pid = windows_attribute_joules_to_pid,
      trait_sync_registry = windows_sync_registry sm,
      trait_hardware_signature = wp_hardware_signature,
      trait_active_pids = windows_active_pids\<rparr>"

definition windows_tick ::
  "'t skip_map_ops \<Rightarrow> nvml \<Rightarrow> (WindowsProvider, 't) sampling_state
     \<Rightarrow> ((WindowsProvider, 't) sampling_state \<times> heartbeat) exec option" where
  "windows_tick sm e s =
     exec_bind (windows_sample_power_state e (sl_provider s)) (\<lambda>outcome.
       Some (Finished (sampling_tick sm (windows_ops sm) outcome s)))"

fun windows_run ::
  "'t skip_map_ops \<Rightarrow> nvml list \<Rightarrow> (WindowsProvider, 't) sampling_state
     \<Rightarrow> ((WindowsProvider, 't) sampling_state \<times> heartbeat list) exec option" where
  "windows_run sm [] s = Some (Finished (s, []))"
| "windows_run sm (e # es) s =
     exec_bind (windows_tick sm e s) (\<lambda>(s1, h).
     exec_bind (windows_run sm es s1) (\<lambda>(s2, hs). Some (Finished (s2, h # hs))))"

section \<open>A sample that returns\<close>

text \<open>What one tick reads: the power in milliwatts and the running processes.\<close>

type_synonym gpu_reading = "nvml \<times> u32 \<times> NvmlProcessInfoV3 list"

fun gpu_reads :: "c_ref \<Rightarrow> gpu_reading \<Rightarrow> bool" where
  "gpu_reads handle (e, mw, procs) \<longleftrightarrow>
     nvmlDeviceGetPowerUsage e handle = (NVML_SUCCESS, mw) \<and> nvml_running e handle procs"

definition windows_snapshot :: "string \<Rightarrow> gpu_reading \<Rightarrow> PowerSnapshot" where
  "windows_snapshot sig reading = (case reading of (e, mw, procs) \<Rightarrow>
     \<lparr>snap_observed_at_ns = now_ns_or U64_MAX (nvml_host e), snap_idle_power_uw = 0,
      snap_active_power_uw = u64_from mw * 1000, snap_cpu_power_uw = 0,
      snap_gpu_power_uw = u64_from mw * 1000, snap_accelerator_power_uw = u64_from mw * 1000,
      snap_hardware_signature = sig\<rparr>)"

definition windows_sampled :: "gpu_reading \<Rightarrow> WindowsProvider \<Rightarrow> WindowsProvider" where
  "windows_sampled reading p = (case reading of (e, mw, procs) \<Rightarrow>
     p\<lparr>wp_compute_scratch := (wp_compute_scratch p)\<lparr>vec_items := procs\<rparr>,
       wp_busy_state := \<lparr>last_sample_ns = now_ns_or U64_MAX (nvml_host e), last_pids = map info_pid procs\<rparr>\<rparr>)"

abbreviation reading_procs :: "gpu_reading \<Rightarrow> NvmlProcessInfoV3 list" where
  "reading_procs reading \<equiv> snd (snd reading)"

lemma windows_sampled_simps [simp]:
  "wp_device_handle (windows_sampled g p) = wp_device_handle p"
  "wp_hardware_signature (windows_sampled g p) = wp_hardware_signature p"
  "vec_capacity (wp_compute_scratch (windows_sampled g p)) = vec_capacity (wp_compute_scratch p)"
  "windows_active_pids (windows_sampled g p) = map info_pid (reading_procs g)"
  by (simp_all add: windows_sampled_def windows_active_pids_def split: prod.split)

lemma windows_sample_returns:
  assumes "gpu_reads (wp_device_handle p) g"
    and "length (reading_procs g) \<le> vec_capacity (wp_compute_scratch p)"
    and "vec_capacity (wp_compute_scratch p) < 2 ^ 32"
  shows "windows_sample_power_state (fst g) p
    = Some (Finished (windows_sampled g p, Ok (windows_snapshot (wp_hardware_signature p) g)))"
proof -
  obtain e mw procs where g: "g = (e, mw, procs)" by (cases g)
  have "read_power_uw e p = Ok (u64_from mw * 1000)"
    using read_power_mw_ok assms(1) by (simp add: g read_power_uw_def)
  moreover have "sample_compute_processes e p = Some (Finished
      (p\<lparr>wp_compute_scratch := (wp_compute_scratch p)\<lparr>vec_items := procs\<rparr>\<rparr>, Ok procs))"
    using sample_compute_processes_returns assms by (simp add: g)
  ultimately show ?thesis
    by (simp add: g windows_sample_power_state_def windows_sampled_def windows_snapshot_def Let_def)
qed

section \<open>Runs that return\<close>

text \<open>The outcomes of the samples of a run, and what the loop observes of them.\<close>

fun windows_outcomes :: "gpu_reading list \<Rightarrow> WindowsProvider \<Rightarrow> (WindowsProvider \<times> PowerSnapshot result) list" where
  "windows_outcomes [] p = []"
| "windows_outcomes (g # gs) p =
     (windows_sampled g p, Ok (windows_snapshot (wp_hardware_signature p) g)) # windows_outcomes gs (windows_sampled g p)"

definition windows_observations :: "string \<Rightarrow> gpu_reading list \<Rightarrow> observation list" where
  "windows_observations sig gs =
     map (\<lambda>g. (Ok (windows_snapshot sig g), map info_pid (reading_procs g))) gs"

lemma observations_windows:
  "observations (windows_ops sm) (windows_outcomes gs p) p0 = windows_observations (wp_hardware_signature p) gs"
  by (induction gs arbitrary: p p0) (simp_all add: windows_ops_def windows_observations_def)

lemma sampling_tick_provider:
  "sl_provider (fst (sampling_tick sm (windows_ops sm) outcome s)) = fst outcome"
  by (simp add: sampling_tick_def windows_ops_def Let_def split: prod.split sum.split option.split)

lemma windows_run_returns:
  "list_all (gpu_reads (wp_device_handle (sl_provider s))) gs \<Longrightarrow>
   list_all (\<lambda>g. length (reading_procs g) \<le> vec_capacity (wp_compute_scratch (sl_provider s))) gs \<Longrightarrow>
   vec_capacity (wp_compute_scratch (sl_provider s)) < 2 ^ 32 \<Longrightarrow>
   windows_run sm (map fst gs) s
     = Some (Finished (sampling_run sm (windows_ops sm) (windows_outcomes gs (sl_provider s)) s))"
proof (induction gs arbitrary: s)
  case (Cons g gs)
  let ?out = "(windows_sampled g (sl_provider s), Ok (windows_snapshot (wp_hardware_signature (sl_provider s)) g))"
  obtain s1 h where tick: "sampling_tick sm (windows_ops sm) ?out s = (s1, h)" by fastforce
  then have s1: "sl_provider s1 = windows_sampled g (sl_provider s)"
    using sampling_tick_provider [of sm ?out s] by simp
  have "windows_tick sm (fst g) s = Some (Finished (s1, h))"
    using windows_sample_returns [of "sl_provider s" g] Cons.prems by (simp add: windows_tick_def tick)
  moreover have "windows_run sm (map fst gs) s1
      = Some (Finished (sampling_run sm (windows_ops sm) (windows_outcomes gs (sl_provider s1)) s1))"
    using Cons.prems by (intro Cons.IH) (simp_all add: s1)
  ultimately show ?case by (simp add: tick s1 split: prod.split)
qed simp

text \<open>A run that reaches a tick which never returns does not return.\<close>

lemma windows_run_append:
  "windows_run sm (es @ es') s = exec_bind (windows_run sm es s) (\<lambda>(s1, hs).
     exec_bind (windows_run sm es' s1) (\<lambda>(s2, hs'). Some (Finished (s2, hs @ hs'))))"
proof (induction es arbitrary: s)
  case Nil
  show ?case by (auto simp: exec_bind_def split: option.split exec.split)
next
  case (Cons e es)
  then show ?case
    by (auto simp: exec_bind_def split: option.split exec.split)
qed

lemma windows_run_provider:
  "sl_provider (fst (sampling_run sm (windows_ops sm) (windows_outcomes gs (sl_provider s)) s))
     = fold windows_sampled gs (sl_provider s)"
proof (induction gs arbitrary: s)
  case (Cons g gs)
  let ?out = "(windows_sampled g (sl_provider s), Ok (windows_snapshot (wp_hardware_signature (sl_provider s)) g))"
  obtain s1 h where tick: "sampling_tick sm (windows_ops sm) ?out s = (s1, h)" by fastforce
  then have "sl_provider s1 = windows_sampled g (sl_provider s)"
    using sampling_tick_provider [of sm ?out s] by simp
  then show ?case using Cons [of s1] by (simp add: tick split: prod.split) (metis fst_conv)
qed simp

definition last_count :: "gpu_reading list \<Rightarrow> nat" where
  "last_count gs = (if gs = [] then 0 else length (reading_procs (last gs)))"

lemma windows_sampled_scratch:
  assumes "wp_compute_scratch p = \<lparr>vec_items = [], vec_capacity = c\<rparr>"
  shows "wp_device_handle (fold windows_sampled gs p) = wp_device_handle p"
    and "wp_compute_scratch (fold windows_sampled gs p)
      = \<lparr>vec_items = if gs = [] then [] else reading_procs (last gs), vec_capacity = c\<rparr>"
  by (induction gs rule: rev_induct) (simp_all add: assms windows_sampled_def split_beta)

lemma windows_new_scratch:
  "windows_new e i st = (st', Ok p) \<Longrightarrow> wp_compute_scratch p = \<lparr>vec_items = [], vec_capacity = 32\<rparr>"
  by (auto simp: windows_new_def vec_with_capacity_def Let_def split: prod.splits sum.splits)

lemma length_sampling_run: "length (snd (sampling_run sm ops es s)) = length es"
  by (induction es arbitrary: s) (simp_all add: split_beta)

text \<open>A device at a given time, for the witnesses.\<close>

definition gpu_at :: "u128 \<Rightarrow> u32 \<Rightarrow> NvmlProcessInfoV3 list \<Rightarrow> nvml" where
  "gpu_at now mw procs = (gpu mw procs)\<lparr>nvml_host := (nvml_host (gpu mw procs))\<lparr>host_now := Some now\<rparr>\<rparr>"

abbreviation gpu_reading_at :: "u128 \<Rightarrow> u32 \<Rightarrow> NvmlProcessInfoV3 list \<Rightarrow> gpu_reading" where
  "gpu_reading_at now mw procs \<equiv> (gpu_at now mw procs, mw, procs)"

lemma gpu_reads_at: "length procs < 2 ^ 32 \<Longrightarrow> gpu_reads handle (gpu_reading_at now mw procs)"
  using gpu_running [of procs mw handle] gpu_power [of mw procs handle]
  by (simp add: gpu_at_def nvml_running_def)

lemma now_gpu_at: "now_ns_or d (nvml_host (gpu_at now mw procs)) = unwrap_or d (u64_try_from now)"
  by (simp add: gpu_at_def now_ns_or_def)

section \<open>Properties\<close>

text \<open>
  C9.  The sampling loop over a new Windows provider works: if every tick reads the power
  and at most 32 compute processes, the run returns with a heartbeat for every tick, and
  every process has in the registry exactly the share of the energy the specification
  gives it, whatever the order in which NVML lists the processes.
\<close>

theorem windows_run_refines_ledger:
  assumes "skip_map sm sm_inv" and "registry_inv sm sm_inv r" and "windows_new e0 i st = (st', Ok p)"
    and "list_all (gpu_reads (wp_device_handle p)) gs"
    and "list_all (\<lambda>(e, mw, procs). length procs \<le> 32 \<and> unat mw \<le> 18446744) gs"
    and "fold ledger_step (windows_observations (wp_hardware_signature p) gs) (ledger_of sm r, None) = (l, prev)"
    and "ledger_total l \<le> u64_max"
  shows "\<exists>s hs. windows_run sm (map fst gs) (sampling_start p r) = Some (Finished (s, hs))
    \<and> length hs = length gs \<and> (\<lambda>pid. uj_of (registry_get sm (sl_registry s) pid)) = l"
proof -
  let ?s = "sampling_start p r" and ?outs = "windows_outcomes gs p"
  obtain s hs where run: "sampling_run sm (windows_ops sm) ?outs ?s = (s, hs)" by fastforce
  note v = windows_new_scratch [OF assms(3)]
  have start: "sl_provider ?s = p" "sl_registry ?s = r" "ledger_abs sm ?s = (ledger_of sm r, None)"
    by (simp_all add: sampling_start_def ledger_abs_def)
  have "windows_run sm (map fst gs) ?s = Some (Finished (s, hs))"
    using windows_run_returns [of ?s gs sm] assms(4,5)
    by (simp add: start v run list_all_iff case_prod_unfold)
  moreover have "list_all within_limits (observations (windows_ops sm) ?outs p)"
    using assms(5) unfolding observations_windows
    by (auto simp: windows_observations_def windows_snapshot_def list_all_iff burst_uw_def unat_mw_to_uw)
  then have "ledger_abs sm s = (l, prev)"
    using skip_map.sampling_run_refines [OF assms(1), of ?s "windows_ops sm" ?outs] assms(2,6,7)
    by (simp add: start run observations_windows)
  moreover have "length ?outs = length gs" by (induction gs arbitrary: p) simp_all
  then have "length hs = length gs" using length_sampling_run [of sm "windows_ops sm" ?outs ?s] by (simp add: run)
  ultimately show ?thesis by (simp add: ledger_abs_def ledger_of_def [abs_def])
qed

theorem windows_run_refines_ledger_witness:
  "\<exists>s hs. windows_run btree_skip_map
       [gpu_at 1000000000 50000 [gpu_process 9, gpu_process 4], gpu_at 1100000000 50000 [gpu_process 9, gpu_process 4]]
       (sampling_start gpu_provider (registry_new btree_skip_map)) = Some (Finished (s, hs))
     \<and> length hs = 2 \<and> uj_of (registry_get btree_skip_map (sl_registry s) 4) = 2500000"
proof -
  let ?procs = "[gpu_process 9, gpu_process 4]"
  let ?gs = "[gpu_reading_at 1000000000 50000 ?procs, gpu_reading_at 1100000000 50000 ?procs]"
  obtain l prev where spec: "fold ledger_step (windows_observations (wp_hardware_signature gpu_provider) ?gs)
      (ledger_of btree_skip_map (registry_new btree_skip_map), None) = (l, prev)" by fastforce
  have power: "unat (u64_from 50000 * 1000) = 50000000" by (simp add: unat_mw_to_uw)
  have l: "l = bill [9, 4] 5000000 (\<lambda>_. 0)"
    using spec unfolding ledger_of_empty
    by (simp add: windows_observations_def windows_snapshot_def now_gpu_at u64_try_from_def exact_uj_def
        burst_uw_def power gpu_process_def)
  have "ledger_total (\<lambda>_. 0) = 0" by (simp add: ledger_total_def)
  then have total: "ledger_total l \<le> u64_max" by (simp add: l ledger_total_bill)
  have four: "l 4 = 2500000"
    by (simp add: l bill_def even_share_def lessThan_Suc) (simp flip: numeral_2_eq_2)
  have "list_all (gpu_reads (wp_device_handle gpu_provider)) ?gs"
    by (simp add: gpu_reads_at del: gpu_reads.simps)
  moreover have "list_all (\<lambda>(e, mw, procs). length procs \<le> 32 \<and> unat mw \<le> 18446744) ?gs" by simp
  ultimately obtain s hs where "windows_run btree_skip_map (map fst ?gs)
      (sampling_start gpu_provider (registry_new btree_skip_map)) = Some (Finished (s, hs))"
    "length hs = length ?gs" "(\<lambda>pid. uj_of (registry_get btree_skip_map (sl_registry s) pid)) = l"
    using windows_run_refines_ledger [OF btree.skip_map_axioms btree.registry_inv_new windows_new_gpu _ _ spec total]
    by blast
  with fun_cong [OF this(3), of 4] four show ?thesis by simp
qed

text \<open>
  C17.  A single busy moment stops the loop for good: after any number of ticks with at most
  32 processes each, the last of them with \<open>k\<close>, a tick that finds more than 32 processes but
  at most \<open>64 - k\<close>, or more than 64 while \<open>k\<close> is below 32, never returns, so no later tick
  takes place.
\<close>

theorem windows_run_hangs:
  assumes "windows_new e0 i st = (st', Ok p)"
    and "list_all (gpu_reads (wp_device_handle p)) (gs @ [(e, mw, procs)])"
    and "list_all (\<lambda>(e, mw, procs). length procs \<le> 32) gs"
    and "32 < length procs"
    and "last_count gs + length procs \<le> 64 \<or> 64 < length procs \<and> last_count gs < 32"
  shows "windows_run sm (map fst gs @ e # es) (sampling_start p r) = None"
proof -
  let ?s = "sampling_start p r"
  note v = windows_new_scratch [OF assms(1)]
  have start: "sl_provider ?s = p" by (simp add: sampling_start_def)
  obtain s hs where run: "sampling_run sm (windows_ops sm) (windows_outcomes gs p) ?s = (s, hs)" by fastforce
  have gs: "windows_run sm (map fst gs) ?s = Some (Finished (s, hs))"
    using windows_run_returns [of ?s gs sm] assms(2,3)
    by (simp add: start v run list_all_iff case_prod_unfold)
  let ?p = "fold windows_sampled gs p"
  have s: "sl_provider s = ?p" using windows_run_provider [of sm gs ?s] by (simp add: start run)
  note S = windows_sampled_scratch [OF v, of gs]
  have "too_small (length procs) (wp_compute_scratch ?p)"
    using assms(3-5) by (auto simp: S too_small_def can_grow_def last_count_def list_all_iff)
  moreover have "nvml_running e (wp_device_handle ?p) procs" "read_power_uw e ?p = Ok (u64_from mw * 1000)"
    using assms(2) read_power_mw_ok by (simp_all add: S(1) read_power_uw_def)
  ultimately have "windows_sample_power_state e ?p = None"
    by (simp add: windows_sample_power_state_def Let_def sample_compute_processes_def compute_loop_diverges)
  then show ?thesis by (simp add: windows_run_append gs windows_tick_def s)
qed

theorem windows_run_hangs_witness:
  "windows_run btree_skip_map
     [gpu_at 1000000000 50000 [gpu_process 9], gpu_at 1100000000 50000 (map (gpu_process \<circ> of_nat) [0..<33]),
      gpu_at 1200000000 50000 [gpu_process 9]]
     (sampling_start gpu_provider (registry_new btree_skip_map)) = None"
proof -
  let ?gs = "[gpu_reading_at 1000000000 50000 [gpu_process 9]]" and ?procs = "map (gpu_process \<circ> of_nat) [0..<33]"
  have "list_all (gpu_reads (wp_device_handle gpu_provider)) (?gs @ [gpu_reading_at 1100000000 50000 ?procs])"
    by (simp add: gpu_reads_at del: gpu_reads.simps)
  moreover have "list_all (\<lambda>(e, mw, procs). length procs \<le> 32) ?gs" "32 < length ?procs" by simp_all
  moreover have "last_count ?gs + length ?procs \<le> 64" by (simp add: last_count_def)
  ultimately show ?thesis
    using windows_run_hangs [OF windows_new_gpu, of ?gs "gpu_at 1100000000 50000 ?procs" 50000 ?procs btree_skip_map
        "[gpu_at 1200000000 50000 [gpu_process 9]]" "registry_new btree_skip_map"]
    by simp
qed

end
