(* ===== verification/Windows_Daemon.thy ===== *)
theory Windows_Daemon
  imports Daemon Windows_Run
begin

text \<open>
  The histories of \<open>Daemon\<close> for the Windows provider, which besides queueing attributions
  writes the energy of a window to the registry itself, and whose calls may panic or never
  return.
\<close>

section \<open>The Windows daemon\<close>

datatype windows_window =
    SampleWindow nvml u64 u64 u64
  | AttributeWindow nvml u64 u64 u64

text \<open>A call that panics or never returns ends the history.\<close>

definition windows_session ::
  "'t skip_map_ops \<Rightarrow> nvml list \<Rightarrow> WindowsProvider \<Rightarrow> 't AmalgafyRegistry
     \<Rightarrow> (WindowsProvider \<times> 't AmalgafyRegistry \<times> heartbeat list) option" where
  "windows_session sm es p r =
     (case windows_run sm es (sampling_start p r) of
        Some (Finished (s, hs)) \<Rightarrow> Some (sl_provider s, sl_registry s, hs)
      | _ \<Rightarrow> None)"

definition returned_window ::
  "('p \<times> 'r \<times> 'a list result) exec option \<Rightarrow> ('p \<times> 'r \<times> 'a list) option" where
  "returned_window x =
     (case x of
        Some (Finished (p, r, Inr as)) \<Rightarrow> Some (p, r, as)
      | Some (Finished (p, r, Inl _)) \<Rightarrow> Some (p, r, [])
      | _ \<Rightarrow> None)"

fun windows_window_apply ::
  "'t skip_map_ops \<Rightarrow> windows_window \<Rightarrow> WindowsProvider \<Rightarrow> 't AmalgafyRegistry
     \<Rightarrow> (WindowsProvider \<times> 't AmalgafyRegistry \<times> PidEnergyAttribution list) option" where
  "windows_window_apply sm (SampleWindow e start stop dt_ms) p r =
     returned_window (sample_window_energy sm e p start stop dt_ms r)"
| "windows_window_apply sm (AttributeWindow e start stop idle_uw) p r =
     returned_window (attribute_window sm e p start stop idle_uw r)"

definition windows_daemon_ops ::
  "'t skip_map_ops \<Rightarrow> (WindowsProvider, nvml, PidEnergyAttribution, windows_window, 't) daemon_ops" where
  "windows_daemon_ops sm =
     \<lparr>do_loop = windows_session sm, do_event = (\<lambda>a p. windows_enqueue_attribution p a),
      event_emits = (\<lambda>a p. [a]), do_window = windows_window_apply sm, do_sync = windows_sync_registry sm\<rparr>"

lemma windows_sample_pending:
  "windows_sample_power_state e p = Some (Finished (p', res)) \<Longrightarrow> wp_pending p' = wp_pending p"
  by (auto simp: windows_sample_power_state_def sample_compute_processes_def exec_bind_def Let_def
      split: sum.splits option.splits exec.splits prod.splits)

lemma windows_run_laws:
  "windows_run sm es s = Some (Finished (s', hs)) \<Longrightarrow>
   wp_pending (sl_provider s') = wp_pending (sl_provider s)
   \<and> (list_all pids_fit hs \<longrightarrow> (\<exists>ps. sl_registry s' = add_all (add_micro_joules sm) (sl_registry s) ps
        \<and> sum_deltas ps = sum_list (map heartbeat_uj hs)))"
proof (induction es arbitrary: s hs)
  case Nil
  then have "s' = s" "hs = []" by simp_all
  then show ?case by (auto intro: exI [of _ "[]"])
next
  case (Cons e es)
  obtain outcome s1 h hs' where sample: "windows_sample_power_state e (sl_provider s) = Some (Finished outcome)"
    and tick: "sampling_tick sm (windows_ops sm) outcome s = (s1, h)"
    and run: "windows_run sm es s1 = Some (Finished (s', hs'))" and hs: "hs = h # hs'"
    using Cons.prems
    by (auto simp: windows_tick_def exec_bind_def split: option.splits exec.splits prod.splits)
  have "wp_pending (sl_provider s1) = wp_pending (sl_provider s)"
    using windows_sample_pending sample sampling_tick_provider [of sm outcome s] tick
    by (metis fst_conv prod.collapse)
  moreover have "\<exists>ps. sl_registry s1 = add_all (add_micro_joules sm) (sl_registry s) ps \<and> sum_deltas ps = heartbeat_uj h"
    if "pids_fit h"
    using sampling_tick_adds [of sm "windows_ops sm" outcome s] that by (simp add: tick)
  ultimately show ?case
    using Cons.IH [OF run] unfolding hs by (auto simp: add_all_append [symmetric]) (metis sum_deltas_simps(3))
qed

lemma map_attr_add_windows: "map (attr_add \<circ> (\<lambda>(pid, d). windows_attribution p s t b pid d)) ps = ps"
  by (induction ps) (auto simp: case_prod_unfold)

lemma sample_window_energy_laws:
  assumes "returned_window (sample_window_energy sm e p start stop dt_ms r) = Some (p', r', as)"
  shows "wp_pending p' = wp_pending p" and "r' = add_all (add_micro_joules sm) r (map attr_add as)"
  using assms
  by (auto simp: returned_window_def sample_window_energy_def sample_compute_processes_def exec_bind_def Let_def
      window_split_loop_eq map_attr_add_windows
      split: sum.splits option.splits exec.splits prod.splits if_splits)

lemma attribute_window_laws:
  assumes "returned_window (attribute_window sm e p start stop idle_uw r) = Some (p', r', as)"
  shows "wp_pending p' = wp_pending p" and "r' = add_all (add_micro_joules sm) r (map attr_add as)"
  using assms
  by (auto simp: returned_window_def attribute_window_def sample_compute_processes_def exec_bind_def Let_def
      attribute_window_loop_eq comp_def
      split: sum.splits option.splits exec.splits prod.splits if_splits)

interpretation windows_daemon: daemon sm "windows_daemon_ops sm" wp_pending for sm
proof
  fix es p r p' r' hs
  assume "do_loop (windows_daemon_ops sm) es p r = Some (p', r', hs)"
  then obtain s where s: "windows_run sm es (sampling_start p r) = Some (Finished (s, hs))"
    "p' = sl_provider s" "r' = sl_registry s"
    by (auto simp: windows_daemon_ops_def windows_session_def split: option.splits exec.splits prod.splits)
  note L = windows_run_laws [OF s(1)]
  show "wp_pending p' = wp_pending p" using L by (simp add: s sampling_start_def)
  show "\<exists>ps. r' = add_all (add_micro_joules sm) r ps \<and> sum_deltas ps = sum_list (map heartbeat_uj hs)"
    if "list_all pids_fit hs"
    using L that by (simp add: s sampling_start_def)
next
  fix w p r p' r' as
  assume "do_window (windows_daemon_ops sm) w p r = Some (p', r', as)"
  then show "wp_pending p' = wp_pending p" "r' = add_all (add_micro_joules sm) r (map attr_add as)"
    by (cases w; auto simp: windows_daemon_ops_def dest: sample_window_energy_laws attribute_window_laws)+
qed (use win.pending_enqueue win.sync_drains win.sync_adds in \<open>simp_all add: windows_daemon_ops_def\<close>)

section \<open>Active sets of a Windows provider are machine-sized\<close>

text \<open>NVML reports the number of processes in 32 bits.\<close>

lemma compute_loop_items:
  assumes "compute_loop e handle attempt scratch = Some (Finished (scratch', Ok ()))"
  shows "length (vec_items scratch') < 2 ^ 32"
proof -
  let ?P = "\<lambda>x. \<forall>v. x = Finished (v, Ok ()) \<longrightarrow> length (vec_items (v :: NvmlProcessInfoV3 vec)) < 2 ^ 32"
  have "?P (Finished (scratch', Ok ()))"
  proof (rule compute_loop.raw_induct [where P = "\<lambda>_ _ _ _ x. ?P x", OF _ assms], intro allI impI)
    fix rec e handle attempt scratch x v
    assume IH: "\<And>e handle attempt scratch x. rec e handle attempt scratch = Some x \<Longrightarrow> ?P x"
      and x: "x = Finished (v, Ok ())"
      and body: "(case nvmlDeviceGetComputeRunningProcesses_v3 e attempt handle (of_nat (vec_capacity scratch)) of
        (code, cnt, infos) \<Rightarrow>
          if code = NVML_ERROR_INSUFFICIENT_SIZE then
            if unat cnt < vec_capacity scratch then Some Panicked
            else rec e handle (attempt + 1) (vec_reserve scratch (unat cnt - vec_capacity scratch))
          else case check_nvml e code ''nvmlDeviceGetComputeRunningProcesses_v3'' of
              Inl err \<Rightarrow> Some (Finished (scratch, Err err))
            | Inr _ \<Rightarrow> Some (Finished (scratch\<lparr>vec_items := take (unat cnt) infos\<rparr>, Ok ()))) = Some x"
    obtain code cnt infos where q: "nvmlDeviceGetComputeRunningProcesses_v3 e attempt handle
        (of_nat (vec_capacity scratch)) = (code, cnt, infos)" by (metis surj_pair)
    have "unat cnt < 2 ^ 32" using unsigned_less [of cnt, where ?'a = nat] by simp
    then show "length (vec_items v) < 2 ^ 32"
      using body x by (auto simp: q split: if_splits sum.splits dest: IH)
  qed
  then show ?thesis by simp
qed

definition windows_fits :: "WindowsProvider \<Rightarrow> bool" where
  "windows_fits p \<longleftrightarrow> length (windows_active_pids p) \<le> u64_max"

lemma sample_compute_processes_fits:
  assumes "sample_compute_processes e p = Some (Finished (p', res))"
  shows "windows_active_pids p' = windows_active_pids p" and "res = Ok procs \<Longrightarrow> length procs < 2 ^ 32"
  using assms compute_loop_items [of e "wp_device_handle p" 0 "wp_compute_scratch p"]
  by (auto simp: sample_compute_processes_def exec_bind_def windows_active_pids_def
      split: option.splits exec.splits prod.splits sum.splits)

lemma windows_sample_fits:
  assumes "windows_sample_power_state e p = Some (Finished (p', res))" and "windows_fits p"
  shows "windows_fits p'"
proof (cases "read_power_uw e p")
  case (Inl err)
  then show ?thesis using assms by (simp add: windows_sample_power_state_def)
next
  case (Inr uw)
  then obtain p1 res1 where s: "sample_compute_processes e p = Some (Finished (p1, res1))"
    using assms(1) by (auto simp: windows_sample_power_state_def exec_bind_def Let_def split: option.splits exec.splits)
  show ?thesis
  proof (cases res1)
    case (Inl err)
    then show ?thesis
      using assms sample_compute_processes_fits(1) [OF s] Inr
      by (simp add: windows_sample_power_state_def s Let_def windows_fits_def)
  next
    case (Inr procs)
    then have "length procs < 2 ^ 32" using sample_compute_processes_fits(2) [OF s] by blast
    then show ?thesis
      using assms(1) Inr \<open>read_power_uw e p = Inr uw\<close>
      by (auto simp: windows_sample_power_state_def s Let_def windows_fits_def windows_active_pids_def)
  qed
qed

lemma windows_tick_fits:
  "windows_fits (fst outcome) \<Longrightarrow> pids_fit (snd (sampling_tick sm (windows_ops sm) outcome s))"
  by (auto simp: sampling_tick_def windows_ops_def windows_fits_def Let_def split: prod.split sum.split option.split)

lemma windows_run_fits:
  "windows_run sm es s = Some (Finished (s', hs)) \<Longrightarrow> windows_fits (sl_provider s) \<Longrightarrow>
   windows_fits (sl_provider s') \<and> list_all pids_fit hs"
proof (induction es arbitrary: s hs)
  case (Cons e es)
  obtain outcome s1 h hs' where sample: "windows_sample_power_state e (sl_provider s) = Some (Finished outcome)"
    and tick: "sampling_tick sm (windows_ops sm) outcome s = (s1, h)"
    and run: "windows_run sm es s1 = Some (Finished (s', hs'))" and hs: "hs = h # hs'"
    using Cons.prems(1)
    by (auto simp: windows_tick_def exec_bind_def split: option.splits exec.splits prod.splits)
  have fits: "windows_fits (fst outcome)"
    using windows_sample_fits [of e "sl_provider s" "fst outcome" "snd outcome"] sample Cons.prems(2) by simp
  have "sl_provider s1 = fst outcome" using sampling_tick_provider [of sm outcome s] tick by simp
  then show ?case
    using Cons.IH [OF run] fits windows_tick_fits [OF fits, of sm s] tick by (simp add: hs)
qed simp

lemma exec_bind_Finished:
  "exec_bind m f = Some (Finished y) \<longleftrightarrow> (\<exists>x. m = Some (Finished x) \<and> f x = Some (Finished y))"
  by (auto simp: exec_bind_def split: option.split exec.split)

lemma returned_windowD:
  "returned_window x = Some (p, r, as) \<Longrightarrow> \<exists>res. x = Some (Finished (p, r, res))"
  by (auto simp: returned_window_def split: option.splits exec.splits prod.splits sum.splits)

lemma fits_of_32: "length xs < 2 ^ 32 \<Longrightarrow> length xs \<le> u64_max"
  by simp

lemma sample_window_fits:
  assumes "sample_window_energy sm e p start stop dt_ms r = Some (Finished (p', r', res))" and "windows_fits p"
  shows "windows_fits p'"
proof (cases "read_power_mw e p")
  case (Inr power)
  then obtain p1 res1 where s: "sample_compute_processes e p = Some (Finished (p1, res1))"
    using assms(1) by (auto simp: sample_window_energy_def exec_bind_Finished)
  note F = sample_compute_processes_fits [OF s]
  show ?thesis
    using assms F(1) fits_of_32 [OF F(2)] Inr
    by (cases res1) (auto simp: sample_window_energy_def s window_split_loop_eq windows_fits_def windows_active_pids_def Let_def split: if_splits)
qed (use assms in \<open>simp add: sample_window_energy_def\<close>)

lemma attribute_window_fits:
  assumes "attribute_window sm e p start stop idle_uw r = Some (Finished (p', r', res))" and "windows_fits p"
  shows "windows_fits p'"
proof (cases "read_power_uw e p")
  case (Inr power)
  then obtain p1 res1 where s: "sample_compute_processes e p = Some (Finished (p1, res1))"
    using assms(1) by (auto simp: attribute_window_def exec_bind_Finished)
  note F = sample_compute_processes_fits [OF s]
  show ?thesis
    using assms F(1) fits_of_32 [OF F(2)] Inr
    by (cases res1) (auto simp: attribute_window_def s attribute_window_loop_eq windows_fits_def windows_active_pids_def Let_def split: if_splits)
qed (use assms in \<open>simp add: attribute_window_def\<close>)

lemma windows_window_fits:
  "windows_window_apply sm w p r = Some (p', r', as) \<Longrightarrow> windows_fits p \<Longrightarrow> windows_fits p'"
  by (cases w) (auto dest!: returned_windowD intro: sample_window_fits attribute_window_fits)

lemma windows_daemon_fits:
  "daemon_steps (windows_daemon_ops sm) (daemon_start p r) d \<Longrightarrow> windows_fits p \<Longrightarrow>
   windows_fits (dm_provider d) \<and> list_all pids_fit (dm_beats d)"
proof (induction rule: rtranclp_induct)
  case base
  then show ?case by (simp add: daemon_start_def)
next
  case (step d d')
  from step.hyps(2) show ?case
  proof cases
    case (daemon_loop es p' r' hs)
    then obtain s where "windows_run sm es (sampling_start (dm_provider d) (dm_registry d)) = Some (Finished (s, hs))"
      "p' = sl_provider s"
      by (auto simp: windows_daemon_ops_def windows_session_def split: option.splits exec.splits prod.splits)
    then show ?thesis
      using windows_run_fits daemon_loop(1) step.IH [OF step.prems] by (fastforce simp: sampling_start_def)
  next
    case (daemon_window w p' r' as)
    then have "windows_window_apply sm w (dm_provider d) (dm_registry d) = Some (p', r', as)"
      by (simp add: windows_daemon_ops_def)
    from windows_window_fits [OF this] show ?thesis using daemon_window(1) step.IH [OF step.prems] by simp
  qed (use step.IH [OF step.prems] in \<open>auto simp: windows_daemon_ops_def windows_enqueue_attribution_def
      windows_sync_registry_def windows_fits_def windows_active_pids_def split: prod.splits\<close>)
qed

lemma windows_new_fits: "windows_new e i st = (st', Ok p) \<Longrightarrow> windows_fits p"
  by (auto simp: windows_new_def windows_fits_def windows_active_pids_def Let_def split: prod.splits sum.splits)

section \<open>Properties\<close>

text \<open>
  C18.  Every micro-joule a Windows daemon measures is sealed exactly once.  On a device
  that NVML opened and an empty registry, whatever sequence of sampling loops, queued
  attributions, synchronisations, and windows attributed directly by \<open>sample_window_energy\<close>
  and \<open>attribute_window\<close>, as long as the calls return: registry and queue together hold
  exactly the measured energy, that of directly attributed windows at once and not again
  after a synchronisation, and the final seal verifies and carries it.
\<close>

theorem windows_daemon_seals_everything:
  assumes "skip_map sm sm_inv" and "ed25519_laws ed" and "json_laws js"
    and "windows_new e device_index st = (st', Ok p)"
    and "daemon_steps (windows_daemon_ops sm) (daemon_start p (registry_new sm)) d"
    and "measured_uj d \<le> u64_max"
  shows "registry_uj sm (dm_registry d) + attributed_uj (wp_pending (dm_provider d)) = measured_uj d
    \<and> (\<exists>sl. seal ed js h signer as serial
          (total_micro_joules sm (fst (snd (windows_sync_registry sm (dm_provider d) (dm_registry d))))) i = Ok sl
        \<and> verify_seal ed js sl = Ok ()
        \<and> unat (pl_total_micro_joules (seal_payload sl)) = measured_uj d)"
proof -
  have "wp_pending p = []"
    using assms(4) by (auto simp: windows_new_def Let_def split: prod.splits sum.splits)
  from windows_daemon.seals_everything [OF assms(1-3,5) this
      conjunct2 [OF windows_daemon_fits [OF assms(5) windows_new_fits [OF assms(4)]]] assms(6)] show ?thesis
    by (simp add: windows_daemon_ops_def)
qed

text \<open>A device with one process that draws 5 W for 100 ms.\<close>

lemma gpu_opens:
  "\<exists>st' p. windows_new (gpu mw procs) 0 nvml_statics_initial = (st', Ok p)
     \<and> vec_capacity (wp_compute_scratch p) = 32"
  by (simp add: windows_new_def gpu_def ensure_nvml_initialized_def nvml_statics_initial_def check_nvml_def
      NVML_SUCCESS_def vec_with_capacity_def Let_def split: prod.split)

lemma gpu_window:
  assumes "vec_capacity (wp_compute_scratch p) = 32"
  shows "\<exists>p' r' a. sample_window_energy sm (gpu 5000 [gpu_process 7]) p 0 100000000 100 r
      = Some (Finished (p', r', Ok [a])) \<and> attr_attributed_energy_uj a = 500000"
proof -
  have "nvml_running (gpu 5000 [gpu_process 7]) (wp_device_handle p) [gpu_process 7]"
    by (rule gpu_running) simp
  then have s: "sample_compute_processes (gpu 5000 [gpu_process 7]) p = Some (Finished
      (p\<lparr>wp_compute_scratch := (wp_compute_scratch p)\<lparr>vec_items := [gpu_process 7]\<rparr>\<rparr>, Ok [gpu_process 7]))"
    by (rule sample_compute_processes_returns) (simp_all add: assms)
  have e: "nvml_window_energy_uj (u64_from 5000) 100 = 500000"
    by (simp add: word_unat_eq_iff unat_nvml_window_energy_uj)
  have "read_power_mw (gpu 5000 [gpu_process 7]) p = Ok 5000"
    by (simp add: read_power_mw_def gpu_def check_nvml_def NVML_SUCCESS_def)
  then show ?thesis
    by (simp add: sample_window_energy_def s e Let_def window_split_loop_eq)
qed

lemma window_daemon_reached:
  "\<exists>st' p d. windows_new (gpu 5000 [gpu_process 7]) 0 nvml_statics_initial = (st', Ok p)
     \<and> daemon_steps (windows_daemon_ops btree_skip_map) (daemon_start p (registry_new btree_skip_map)) d
     \<and> dm_beats d = [] \<and> measured_uj d = 500000"
proof -
  obtain st' p where p: "windows_new (gpu 5000 [gpu_process 7]) 0 nvml_statics_initial = (st', Ok p)"
    "vec_capacity (wp_compute_scratch p) = 32" using gpu_opens by blast
  let ?d = "daemon_start p (registry_new btree_skip_map)"
  obtain p' r' a where w: "sample_window_energy btree_skip_map (gpu 5000 [gpu_process 7]) p 0 100000000 100
      (registry_new btree_skip_map) = Some (Finished (p', r', Ok [a]))" "attr_attributed_energy_uj a = 500000"
    using gpu_window [OF p(2)] by blast
  let ?d' = "?d\<lparr>dm_provider := p', dm_registry := r', dm_direct := dm_direct ?d @ [a]\<rparr>"
  have "daemon_step (windows_daemon_ops btree_skip_map) ?d ?d'"
    by (rule daemon_window [where w = "SampleWindow (gpu 5000 [gpu_process 7]) 0 100000000 100"])
       (simp add: windows_daemon_ops_def daemon_start_def returned_window_def w)
  then have "daemon_steps (windows_daemon_ops btree_skip_map) ?d ?d'" by (rule r_into_rtranclp)
  moreover have "dm_beats ?d' = []" "measured_uj ?d' = 500000"
    using w(2) by (simp_all add: daemon_start_def measured_uj_def beats_uj_def attributed_uj_def)
  ultimately show ?thesis using p(1) by blast
qed

theorem windows_daemon_seals_everything_witness:
  "\<exists>p d sl. daemon_steps (windows_daemon_ops btree_skip_map) (daemon_start p (registry_new btree_skip_map)) d
     \<and> seal small_ed25519 small_json (bare_host 1) (signer_new 3) [] ''GPU''
     (total_micro_joules btree_skip_map (fst (snd (windows_sync_registry btree_skip_map
        (dm_provider d) (dm_registry d))))) (manual ''GPU'') = Ok sl
     \<and> verify_seal small_ed25519 small_json sl = Ok ()
     \<and> unat (pl_total_micro_joules (seal_payload sl)) = 500000"
proof -
  obtain st' p d where d: "windows_new (gpu 5000 [gpu_process 7]) 0 nvml_statics_initial = (st', Ok p)"
    "daemon_steps (windows_daemon_ops btree_skip_map) (daemon_start p (registry_new btree_skip_map)) d"
    "dm_beats d = []" "measured_uj d = 500000"
    using window_daemon_reached by blast
  from windows_daemon_seals_everything [OF btree.skip_map_axioms small_ed25519_laws small_json_laws d(1,2)]
  show ?thesis using d(2,4) by fastforce
qed

end
