(* ===== verification/Hardware_Probe.thy ===== *)
theory Hardware_Probe
  imports Windows_Provider
begin

text \<open>
  Probing the host for its identity, the rest of \<open>src/core/hardware.rs\<close>: the Windows probe
  through the NVML provider, the selection by target operating system, and the infallible
  \<open>probe\<close> that falls back to a synthetic identity.  What the platform answers is a record;
  the state is the foreign world of IOKit and the NVML statics.
\<close>

section \<open>Operations\<close>

definition windows_probe_device :: "nvml \<Rightarrow> u32 \<Rightarrow> nvml_statics \<Rightarrow> nvml_statics \<times> HardwareIdentity result" where
  "windows_probe_device e device_index st =
     (case windows_new e device_index st of
        (st', Inl err) \<Rightarrow> (st', Err err)
      | (st', Inr p) \<Rightarrow>
          (windows_drop p st',
           Ok \<lparr>fingerprint = hardware_signature_string p, hw_source = signature_source p\<rparr>))"

datatype target_os = Macos | Linux | Windows | Other_OS

record 'w platform =
  pf_host :: host
  pf_iokit :: "'w iokit_ops"
  pf_nvml :: nvml

record 'w platform_state =
  ps_iokit :: 'w
  ps_nvml :: nvml_statics

fun try_probe ::
  "target_os \<Rightarrow> 'w platform \<Rightarrow> 'w platform_state \<Rightarrow> 'w platform_state \<times> HardwareIdentity result" where
  "try_probe Macos pf s =
     (case macos_probe (pf_iokit pf) (ps_iokit s) of (res, w) \<Rightarrow> (s\<lparr>ps_iokit := w\<rparr>, res))"
| "try_probe Linux pf s = (s, linux_probe (pf_host pf))"
| "try_probe Windows pf s =
     (case windows_probe_device (pf_nvml pf) 0 (ps_nvml s) of (st, res) \<Rightarrow> (s\<lparr>ps_nvml := st\<rparr>, res))"
| "try_probe Other_OS pf s = (s, Err ''HardwareIdentity probe is not implemented on this OS'')"

text \<open>The public entry point for one NVIDIA device.\<close>

definition probe_windows_device ::
  "'w platform \<Rightarrow> u32 \<Rightarrow> 'w platform_state \<Rightarrow> 'w platform_state \<times> HardwareIdentity result" where
  "probe_windows_device pf device_index s =
     (case windows_probe_device (pf_nvml pf) device_index (ps_nvml s) of (st, res) \<Rightarrow> (s\<lparr>ps_nvml := st\<rparr>, res))"

definition hw_probe ::
  "target_os \<Rightarrow> 'w platform \<Rightarrow> 'w platform_state \<Rightarrow> 'w platform_state \<times> HardwareIdentity" where
  "hw_probe os pf s =
     (case try_probe os pf s of
        (s', Inr identity) \<Rightarrow> (s', identity)
      | (s', Inl err) \<Rightarrow> (s', synthetic (pf_host pf) ''probe_failed''))"

text \<open>The Linux probe by the list of candidate files.\<close>

lemma hw_probe_linux:
  "snd (hw_probe Linux pf s) =
     (case fingerprint_candidates (pf_host pf) of
        [] \<Rightarrow> synthetic (pf_host pf) ''probe_failed''
      | (t, src) # _ \<Rightarrow> \<lparr>fingerprint = t, hw_source = src\<rparr>)
   \<and> fingerprint (snd (hw_probe Linux pf s)) \<noteq> []"
proof -
  have eq: "snd (hw_probe Linux pf s) =
     (case fingerprint_candidates (pf_host pf) of
        [] \<Rightarrow> synthetic (pf_host pf) ''probe_failed''
      | (t, src) # _ \<Rightarrow> \<lparr>fingerprint = t, hw_source = src\<rparr>)"
    using result_ok_linux_probe [of "pf_host pf"]
    by (cases "linux_probe (pf_host pf)")
       (auto simp: hw_probe_def split: list.splits prod.splits)
  moreover have "fingerprint (snd (hw_probe Linux pf s)) \<noteq> []"
  proof (cases "fingerprint_candidates (pf_host pf)")
    case Nil
    then show ?thesis by (simp add: eq synthetic_def)
  next
    case (Cons c cs)
    then have "fst c \<noteq> []"
      using fingerprint_candidates_nonempty [of "fst c" "snd c" "pf_host pf"] by simp
    with Cons show ?thesis by (auto simp: eq split: prod.split)
  qed
  ultimately show ?thesis by simp
qed

section \<open>Properties\<close>

text \<open>
  C29.  On Linux the probe always yields a non-empty fingerprint: the trimmed machine id if
  it is readable and not blank, otherwise the first readable and non-blank GPU UUID in
  directory order, and only if there is neither, a synthetic identity.
\<close>

theorem linux_probe_first_candidate:
  "snd (hw_probe Linux pf s) =
     (case fingerprint_candidates (pf_host pf) of
        [] \<Rightarrow> synthetic (pf_host pf) ''probe_failed''
      | (t, src) # _ \<Rightarrow> \<lparr>fingerprint = t, hw_source = src\<rparr>)
   \<and> fingerprint (snd (hw_probe Linux pf s)) \<noteq> []"
  by (rule hw_probe_linux)

text \<open>A platform for the example below, with a blank serial in the firmware and in NVML.\<close>

definition blank_platform :: "(c_ref multiset \<times> u32 multiset) platform" where
  "blank_platform =
     \<lparr>pf_host = bare_host 1, pf_iokit = small_iokit True 0 [],
      pf_nvml = (gpu 0 [])\<lparr>nvmlDeviceGetSerial := (\<lambda>h n. (0, replicate n (CHR 0x00)))\<rparr>\<rparr>"

definition blank_state :: "(c_ref multiset \<times> u32 multiset) platform_state" where
  "blank_state = \<lparr>ps_iokit = ({#}, {#}), ps_nvml = nvml_statics_initial\<rparr>"

text \<open>
  On macOS and Windows an empty serial is accepted as it is: the probe succeeds with
  an empty fingerprint, marked as a genuine serial, and neither the NVML UUID nor the
  synthetic identity is tried.
\<close>

theorem probe_accepts_empty_serial:
  "snd (hw_probe Macos blank_platform blank_state) = \<lparr>fingerprint = [], hw_source = MacosIoKitSerial\<rparr>
   \<and> snd (hw_probe Windows blank_platform blank_state) = \<lparr>fingerprint = [], hw_source = WindowsNvmlSerial\<rparr>"
proof
  show "snd (hw_probe Macos blank_platform blank_state) = \<lparr>fingerprint = [], hw_source = MacosIoKitSerial\<rparr>"
    by (simp add: hw_probe_def blank_platform_def blank_state_def macos_probe_def read_platform_serial_def
        CString_new_def hw_cfstring_new_def small_iokit_def scoped_def drop_after_def read_serial_property_def
        hw_cfstring_to_string_def CStr_from_ptr_def)
  show "snd (hw_probe Windows blank_platform blank_state) = \<lparr>fingerprint = [], hw_source = WindowsNvmlSerial\<rparr>"
    by (simp add: hw_probe_def blank_platform_def blank_state_def windows_probe_device_def windows_new_def
        windows_drop_def hardware_signature_string_def signature_source_def
        ensure_nvml_initialized_def nvml_statics_initial_def gpu_def check_nvml_def read_nvml_serial_def
        NVML_SUCCESS_def NVML_DEVICE_SERIAL_BUFFER_SIZE_def CStr_from_ptr_def)
qed

end
