(* ===== verification/Registry_Spec.thy ===== *)
theory Registry_Spec
  imports Registry
begin

text \<open>
  The registry of \<open>src/core/registry.rs\<close> against a specification: a finite map from process
  ids to micro-joules, natural numbers that stop at the largest 64-bit value.  A caller that
  performs any sequence of the registry's operations gets from it exactly the answers the map
  gives.
\<close>

section \<open>Calls and answers\<close>

datatype registry_call =
    CallAdd u32 u64
  | CallRemove u32
  | CallGet u32
  | CallLen
  | CallIsEmpty
  | CallTotal
  | CallSnapshot

datatype registry_answer =
    AnswerTotal nat
  | AnswerEntry "nat option"
  | AnswerLen nat
  | AnswerBool bool
  | AnswerSnapshot "(u32 \<times> nat) list"

text \<open>One call of the implementation; numbers in answers are read as natural numbers.\<close>

fun registry_do ::
  "'t skip_map_ops \<Rightarrow> 't AmalgafyRegistry \<Rightarrow> registry_call \<Rightarrow> 't AmalgafyRegistry \<times> registry_answer" where
  "registry_do sm r (CallAdd pid d) =
     (case add_micro_joules sm r pid d of (r', v) \<Rightarrow> (r', AnswerTotal (unat v)))"
| "registry_do sm r (CallRemove pid) =
     (case registry_remove sm r pid of (r', v) \<Rightarrow> (r', AnswerEntry (map_option unat v)))"
| "registry_do sm r (CallGet pid) = (r, AnswerEntry (map_option unat (registry_get sm r pid)))"
| "registry_do sm r CallLen = (r, AnswerLen (registry_len sm r))"
| "registry_do sm r CallIsEmpty = (r, AnswerBool (registry_is_empty sm r))"
| "registry_do sm r CallTotal = (r, AnswerTotal (unat (total_micro_joules sm r)))"
| "registry_do sm r CallSnapshot =
     (r, AnswerSnapshot (map (\<lambda>(pid, v). (pid, unat v)) (snapshot sm r)))"

text \<open>The specification of one call on the map.\<close>

fun spec_do :: "(u32 \<rightharpoonup> nat) \<Rightarrow> registry_call \<Rightarrow> (u32 \<rightharpoonup> nat) \<times> registry_answer" where
  "spec_do m (CallAdd pid d) =
     (let v = min ((case m pid of None \<Rightarrow> 0 | Some x \<Rightarrow> x) + unat d) (2 ^ 64 - 1)
      in (m(pid \<mapsto> v), AnswerTotal v))"
| "spec_do m (CallRemove pid) = (m(pid := None), AnswerEntry (m pid))"
| "spec_do m (CallGet pid) = (m, AnswerEntry (m pid))"
| "spec_do m CallLen = (m, AnswerLen (card (dom m)))"
| "spec_do m CallIsEmpty = (m, AnswerBool (dom m = {}))"
| "spec_do m CallTotal = (m, AnswerTotal (min (\<Sum>pid\<in>dom m. the (m pid)) (2 ^ 64 - 1)))"
| "spec_do m CallSnapshot =
     (m, AnswerSnapshot (map (\<lambda>pid. (pid, the (m pid))) (sorted_list_of_set (dom m))))"

text \<open>A sequence of calls: the final state and the answers in order.\<close>

fun run_calls :: "('s \<Rightarrow> 'c \<Rightarrow> 's \<times> 'a) \<Rightarrow> 's \<Rightarrow> 'c list \<Rightarrow> 's \<times> 'a list" where
  "run_calls f s [] = (s, [])"
| "run_calls f s (c # cs) =
     (case f s c of (s1, a) \<Rightarrow> case run_calls f s1 cs of (s2, as) \<Rightarrow> (s2, a # as))"

text \<open>
  A step-wise simulation between two such machines extends to every sequence of calls.
\<close>

locale call_refinement =
  fixes inv :: "'s \<Rightarrow> bool" and abs :: "'s \<Rightarrow> 'm"
    and impl :: "'s \<Rightarrow> 'c \<Rightarrow> 's \<times> 'a" and spec :: "'m \<Rightarrow> 'c \<Rightarrow> 'm \<times> 'a"
  assumes inv_do: "inv s \<Longrightarrow> inv (fst (impl s c))"
    and abs_do: "inv s \<Longrightarrow> spec (abs s) c = (abs (fst (impl s c)), snd (impl s c))"
begin

lemma run_calls_refines:
  "inv s \<Longrightarrow> inv (fst (run_calls impl s cs))
    \<and> run_calls spec (abs s) cs = (abs (fst (run_calls impl s cs)), snd (run_calls impl s cs))"
proof (induction cs arbitrary: s)
  case (Cons c cs)
  obtain s1 a where step: "impl s c = (s1, a)" by fastforce
  have "inv s1" "spec (abs s) c = (abs s1, a)"
    using inv_do [OF Cons.prems, of c] abs_do [OF Cons.prems, of c] by (simp_all add: step)
  then show ?case using Cons.IH [of s1] by (simp add: step split_beta)
qed simp

end

section \<open>What a registry holds\<close>

definition contents :: "'t skip_map_ops \<Rightarrow> 't AmalgafyRegistry \<Rightarrow> u32 \<rightharpoonup> nat" where
  "contents sm r = (\<lambda>pid. map_option unat (registry_get sm r pid))"

lemma dom_contents: "dom (contents sm r) = dom (registry_get sm r)"
  by (auto simp: contents_def dom_def)

lemma alist_rebuild: "distinct (map fst xs) \<Longrightarrow> map (\<lambda>k. (k, the (map_of xs k))) (map fst xs) = xs"
  by (auto simp: comp_def intro!: map_idI)

context skip_map
begin

text \<open>A snapshot, and so total, size and emptiness, are determined by what the registry holds.\<close>

lemma snapshot_eqI:
  assumes "registry_inv sm sm_inv r" and "registry_get sm r = map_of xs" and "sorted_wrt (<) (map fst xs)"
  shows "snapshot sm r = xs"
proof -
  have same: "map_of (snapshot sm r) = map_of xs"
    using snapshot_lookup [OF assms(1)] assms(2) by (auto intro: ext)
  have "distinct (map fst xs)" "distinct (map fst (snapshot sm r))"
    using assms(3) snapshot_sorted [OF assms(1)] strict_sorted_iff by blast+
  note D = alist_rebuild [OF this(1)] alist_rebuild [OF this(2)]
  have "set (map fst (snapshot sm r)) = set (map fst xs)"
    using same by (metis dom_map_of_conv_image_fst list.set_map)
  then have "map fst (snapshot sm r) = map fst xs"
    using snapshot_sorted [OF assms(1)] assms(3) by (simp only: strict_sorted_equal)
  then show ?thesis using D same by metis
qed

lemma registry_summary:
  assumes "registry_inv sm sm_inv r" and "snapshot sm r = xs"
  shows "registry_len sm r = length xs" and "registry_is_empty sm r \<longleftrightarrow> xs = []"
    and "total_micro_joules sm r = fold (\<lambda>(_, v) acc. sat_add acc v) xs 0"
proof -
  note D = registry_invD(1) [OF assms(1)]
  show "registry_len sm r = length xs" "registry_is_empty sm r \<longleftrightarrow> xs = []"
    using assms(2) by (auto simp: registry_len_def registry_is_empty_def len_iter [OF D] is_empty_iter [OF D] snapshot_def)
  show "total_micro_joules sm r = fold (\<lambda>(_, v) acc. sat_add acc v) xs 0"
    unfolding total_micro_joules_def assms(2) [symmetric] snapshot_def saturating_add_value_def
    by (simp add: fold_map comp_def case_prod_unfold)
qed

lemma registry_get_new: "registry_get sm (registry_new sm) = Map.empty"
  by (auto simp: registry_get_def registry_new_def new_get)

lemma snapshot_sorted_keys:
  assumes "registry_inv sm sm_inv r"
  shows "snapshot sm r = map (\<lambda>pid. (pid, the (registry_get sm r pid))) (sorted_list_of_set (dom (registry_get sm r)))"
proof (rule snapshot_eqI [OF assms])
  let ?keys = "sorted_list_of_set (dom (registry_get sm r))"
  have keys: "map fst (map (\<lambda>pid. (pid, the (registry_get sm r pid))) ?keys) = ?keys"
    by (simp add: comp_def)
  show "sorted_wrt (<) (map fst (map (\<lambda>pid. (pid, the (registry_get sm r pid))) ?keys))"
    unfolding keys by (simp add: strict_sorted_iff)
  show "registry_get sm r = map_of (map (\<lambda>pid. (pid, the (registry_get sm r pid))) ?keys)"
    by (auto simp: fun_eq_iff map_of_map_keys restrict_map_def dom_def)
qed

lemma contents_summary:
  assumes "registry_inv sm sm_inv r"
  shows "registry_len sm r = card (dom (contents sm r))"
    and "registry_is_empty sm r \<longleftrightarrow> dom (contents sm r) = {}"
    and "unat (total_micro_joules sm r) = min (\<Sum>pid\<in>dom (contents sm r). the (contents sm r pid)) u64_max"
proof -
  note S = snapshot_sorted_keys [OF assms]
  have len: "length (snapshot sm r) = card (dom (contents sm r))"
    by (simp add: S dom_contents)
  then show "registry_len sm r = card (dom (contents sm r))"
    using registry_summary(1) [OF assms refl] by simp
  have "snapshot sm r = [] \<longleftrightarrow> dom (contents sm r) = {}"
    by (simp add: S dom_contents sorted_list_of_set_eq_Nil_iff)
  then show "registry_is_empty sm r \<longleftrightarrow> dom (contents sm r) = {}"
    using registry_summary(2) [OF assms refl] by simp
  have "(\<Sum>pid\<in>dom (contents sm r). the (contents sm r pid)) = (\<Sum>pid\<in>UNIV. uj_of (registry_get sm r pid))"
    by (rule sum.mono_neutral_cong_left) (auto simp: contents_def dom_def uj_of_def split: option.splits)
  then show "unat (total_micro_joules sm r) = min (\<Sum>pid\<in>dom (contents sm r). the (contents sm r pid)) u64_max"
    using total_micro_joules_sum [OF assms] by simp
qed

lemma contents_snapshot:
  assumes "registry_inv sm sm_inv r"
  shows "map (\<lambda>(pid, v). (pid, unat v)) (snapshot sm r)
    = map (\<lambda>pid. (pid, the (contents sm r pid))) (sorted_list_of_set (dom (contents sm r)))"
  unfolding snapshot_sorted_keys [OF assms] dom_contents by (auto simp: contents_def dom_def)

lemma contents_add:
  assumes "registry_inv sm sm_inv r"
  shows "contents sm (fst (add_micro_joules sm r pid d)) = (contents sm r)(pid \<mapsto> unat (snd (add_micro_joules sm r pid d)))"
    and "unat (snd (add_micro_joules sm r pid d))
      = min ((case contents sm r pid of None \<Rightarrow> 0 | Some x \<Rightarrow> x) + unat d) u64_max"
  by (auto simp: contents_def registry_get_add [OF assms] add_micro_joules_return [OF assms] u64_nat split: option.split)

lemma registry_do_inv: "registry_inv sm sm_inv r \<Longrightarrow> registry_inv sm sm_inv (fst (registry_do sm r c))"
  by (cases c) (simp_all add: split_beta registry_inv_add registry_inv_remove)

lemma registry_do_spec:
  assumes "registry_inv sm sm_inv r"
  shows "spec_do (contents sm r) c = (contents sm (fst (registry_do sm r c)), snd (registry_do sm r c))"
proof (cases c)
  case (CallAdd pid d)
  then show ?thesis using contents_add [OF assms, of pid d] by (simp add: split_beta Let_def)
next
  case (CallRemove pid)
  then show ?thesis
    using registry_remove_result [OF assms, of pid] by (auto simp: split_beta contents_def)
next
  case CallSnapshot
  then show ?thesis using contents_snapshot [OF assms] by simp
next
  case (CallGet pid)
  then show ?thesis by (simp add: contents_def)
qed (simp_all add: contents_summary [OF assms])

end

sublocale skip_map \<subseteq> calls: call_refinement "registry_inv sm sm_inv" "contents sm" "registry_do sm" spec_do
  by unfold_locales (rule registry_do_inv registry_do_spec, assumption)+

context skip_map
begin

lemmas registry_calls_refine = calls.run_calls_refines

end

section \<open>Properties\<close>

text \<open>
  C32.  The registry is a finite map.  Whatever sequence of accumulations, removals, lookups,
  size and emptiness queries, totals and snapshots is performed on a well-formed registry, in
  particular on a new one, which is empty, every single answer is the one the map from process
  ids to saturating natural numbers gives, the registry ends up holding what the map holds, and
  it stays well-formed.
\<close>

theorem registry_refines_finite_map:
  assumes "skip_map sm sm_inv" and "registry_inv sm sm_inv r"
  shows "snd (run_calls (registry_do sm) r cs) = snd (run_calls spec_do (contents sm r) cs)
    \<and> contents sm (fst (run_calls (registry_do sm) r cs)) = fst (run_calls spec_do (contents sm r) cs)
    \<and> registry_inv sm sm_inv (fst (run_calls (registry_do sm) r cs))
    \<and> registry_inv sm sm_inv (registry_new sm) \<and> contents sm (registry_new sm) = Map.empty"
proof -
  have "contents sm (registry_new sm) = Map.empty"
    using skip_map.registry_get_new [OF assms(1)] by (simp add: contents_def)
  then show ?thesis
    using skip_map.registry_calls_refine [OF assms, of cs] skip_map.registry_inv_new [OF assms(1)]
    by simp
qed

theorem registry_refines_finite_map_witness:
  "snd (run_calls (registry_do btree_skip_map) example_registry
      [CallAdd 7 5, CallRemove 1024, CallAdd 9 U64_MAX, CallLen, CallSnapshot, CallTotal, CallIsEmpty, CallGet 1024])
    = snd (run_calls spec_do (contents btree_skip_map example_registry)
      [CallAdd 7 5, CallRemove 1024, CallAdd 9 U64_MAX, CallLen, CallSnapshot, CallTotal, CallIsEmpty, CallGet 1024])
   \<and> snd (run_calls (registry_do btree_skip_map) example_registry
      [CallAdd 7 5, CallRemove 1024, CallAdd 9 U64_MAX, CallLen, CallSnapshot, CallTotal, CallIsEmpty, CallGet 1024])
    = [AnswerTotal 5, AnswerEntry (Some 250), AnswerTotal (2 ^ 64 - 1), AnswerLen 2,
       AnswerSnapshot [(7, 5), (9, 2 ^ 64 - 1)], AnswerTotal (2 ^ 64 - 1), AnswerBool False, AnswerEntry None]"
proof
  show "snd (run_calls (registry_do btree_skip_map) example_registry
      [CallAdd 7 5, CallRemove 1024, CallAdd 9 U64_MAX, CallLen, CallSnapshot, CallTotal, CallIsEmpty, CallGet 1024])
    = [AnswerTotal 5, AnswerEntry (Some 250), AnswerTotal (2 ^ 64 - 1), AnswerLen 2,
       AnswerSnapshot [(7, 5), (9, 2 ^ 64 - 1)], AnswerTotal (2 ^ 64 - 1), AnswerBool False, AnswerEntry None]"
    by (simp add: example_registry_eq add_micro_joules_def atomic_new_def registry_remove_def registry_get_def
        registry_len_def registry_is_empty_def snapshot_def total_micro_joules_def saturating_add_value_def
        bt_get_def bt_remove_def sat_add_def unat_U64_MAX)
qed (use registry_refines_finite_map [OF btree.skip_map_axioms registry_inv_example] in blast)

end
