(* ===== verification/Manifest.thy ===== *)
theory Manifest
  imports Signer
begin

text \<open>
  The legacy single-process manifest, \<open>src/core/manifest.rs\<close>: signing serializes the payload
  directly, without canonicalization, and verification serializes it again.  The derived
  serialization to bytes is a parameter; \<open>manifest_text\<close> says that it always succeeds and
  determines the payload.
\<close>

section \<open>Data and operations\<close>

record EnergyManifestPayload =
  em_manifest_version :: u32
  em_provider :: string
  em_hardware_signature :: string
  em_workload_pid :: u32
  em_window_start_ns :: u64
  em_window_end_ns :: u64
  em_sampled_at_ns :: u64
  em_idle_power_uw :: u64
  em_active_power_uw :: u64
  em_attributed_energy_uj :: u64

record EnergyManifest =
  em_payload :: EnergyManifestPayload
  em_signing_public_key :: "u8 list"
  em_signature :: "u8 list"

type_synonym manifest_writer = "EnergyManifestPayload \<Rightarrow> u8 list result"

definition manifest_sign ::
  "('sk, 'vk) ed25519 \<Rightarrow> manifest_writer \<Rightarrow> EnergyManifestPayload \<Rightarrow> 'sk \<Rightarrow> EnergyManifest result" where
  "manifest_sign ed write payload sk =
     (case write payload of
        Inl err \<Rightarrow> Err err
      | Inr bytes \<Rightarrow>
          Ok \<lparr>em_payload = payload,
              em_signing_public_key = ed_to_bytes ed (ed_verifying_key ed sk),
              em_signature = ed_sign ed sk bytes\<rparr>)"

definition manifest_verify :: "('sk, 'vk) ed25519 \<Rightarrow> manifest_writer \<Rightarrow> EnergyManifest \<Rightarrow> unit result" where
  "manifest_verify ed write m =
     (case ed_from_bytes ed (em_signing_public_key m) of
        Inl err \<Rightarrow> Err err
      | Inr vk \<Rightarrow>
          if length (em_signature m) \<noteq> 64 then Err ''invalid ed25519 signature length''
          else (case write (em_payload m) of
             Inl err \<Rightarrow> Err err
           | Inr bytes \<Rightarrow>
               (case ed_verify ed vk bytes (em_signature m) of Inl err \<Rightarrow> Err err | Inr _ \<Rightarrow> Ok ())))"

definition manifest_text :: "manifest_writer \<Rightarrow> bool" where
  "manifest_text write \<longleftrightarrow>
     (\<forall>p. is_ok (write p)) \<and> (\<forall>p q bytes. write p = Ok bytes \<longrightarrow> write q = Ok bytes \<longrightarrow> p = q)"

section \<open>The derived serialization\<close>

text \<open>The fields as an object, in declaration order, and its JSON text.\<close>

definition manifest_payload_value :: "EnergyManifestPayload \<Rightarrow> Value" where
  "manifest_payload_value p =
     Object [(''manifest_version'', Number (PosInt (u64_from (em_manifest_version p)))),
             (''provider'', String (em_provider p)),
             (''hardware_signature'', String (em_hardware_signature p)),
             (''workload_pid'', Number (PosInt (u64_from (em_workload_pid p)))),
             (''window_start_ns'', Number (PosInt (em_window_start_ns p))),
             (''window_end_ns'', Number (PosInt (em_window_end_ns p))),
             (''sampled_at_ns'', Number (PosInt (em_sampled_at_ns p))),
             (''idle_power_uw'', Number (PosInt (em_idle_power_uw p))),
             (''active_power_uw'', Number (PosInt (em_active_power_uw p))),
             (''attributed_energy_uj'', Number (PosInt (em_attributed_energy_uj p)))]"

definition small_writer :: manifest_writer where
  "small_writer p = json_writer (manifest_payload_value p)"

lemma manifest_payload_inj: "manifest_payload_value p = manifest_payload_value q \<Longrightarrow> p = q"
  by (simp add: manifest_payload_value_def u64_from_inj)

lemma wf_manifest_payload: "wf_value (manifest_payload_value p)"
  by (simp add: manifest_payload_value_def)

lemma integral_manifest_payload: "integral (manifest_payload_value p)"
  by (simp add: manifest_payload_value_def)

lemma small_writer_text: "manifest_text small_writer"
  unfolding manifest_text_def small_writer_def
proof (intro conjI allI impI)
  show "is_ok (json_writer (manifest_payload_value p))" for p by (simp add: json_writer_total integral_manifest_payload)
  show "p = q" if "json_writer (manifest_payload_value p) = Ok bytes" "json_writer (manifest_payload_value q) = Ok bytes"
    for p q bytes
    using that json_writer_injective wf_manifest_payload integral_manifest_payload unfolding json_text_injective_def
    by (intro manifest_payload_inj) blast
qed

definition sample_payload :: EnergyManifestPayload where
  "sample_payload =
     \<lparr>em_manifest_version = 1, em_provider = ''linux-ebpf'', em_hardware_signature = ''NV-H100'',
      em_workload_pid = 4242, em_window_start_ns = 10, em_window_end_ns = 20, em_sampled_at_ns = 20,
      em_idle_power_uw = 3000000, em_active_power_uw = 9500000, em_attributed_energy_uj = 65\<rparr>"

section \<open>Properties\<close>

text \<open>
  C40.  A signed manifest verifies.  If a manifest with a changed payload still verified
  under the same key and signature, that signature would be valid for a second message,
  different from the signed one; a signature of the wrong length is always rejected.
\<close>

theorem manifest_round_trip:
  assumes "ed25519_laws ed" and "manifest_text write"
  shows "\<exists>m signed. manifest_sign ed write p sk = Ok m \<and> write p = Ok signed
    \<and> manifest_verify ed write m = Ok ()
    \<and> (\<forall>q. q \<noteq> p \<and> manifest_verify ed write (m\<lparr>em_payload := q\<rparr>) = Ok () \<longrightarrow>
          (\<exists>other. other \<noteq> signed \<and> ed_verify ed (ed_verifying_key ed sk) other (ed_sign ed sk signed) = Ok ()))
    \<and> (\<forall>sig. length sig \<noteq> 64 \<longrightarrow>
          manifest_verify ed write (m\<lparr>em_signature := sig\<rparr>) = Err ''invalid ed25519 signature length'')"
proof -
  obtain signed where signed: "write p = Ok signed"
    using assms(2) unfolding manifest_text_def is_ok_iff by blast
  define m where "m = \<lparr>em_payload = p, em_signing_public_key = ed_to_bytes ed (ed_verifying_key ed sk),
    em_signature = ed_sign ed sk signed\<rparr>"
  have sign: "manifest_sign ed write p sk = Ok m" by (simp add: manifest_sign_def signed m_def)
  have laws: "ed_from_bytes ed (ed_to_bytes ed (ed_verifying_key ed sk)) = Ok (ed_verifying_key ed sk)"
    "length (ed_sign ed sk signed) = 64" "ed_verify ed (ed_verifying_key ed sk) signed (ed_sign ed sk signed) = Ok ()"
    using assms(1) by (simp_all add: ed25519_laws_def)
  have "manifest_verify ed write m = Ok ()"
    by (simp add: manifest_verify_def m_def signed laws)
  moreover have "\<exists>other. other \<noteq> signed \<and> ed_verify ed (ed_verifying_key ed sk) other (ed_sign ed sk signed) = Ok ()"
    if q: "q \<noteq> p" "manifest_verify ed write (m\<lparr>em_payload := q\<rparr>) = Ok ()" for q
  proof -
    obtain other where other: "write q = Ok other"
      "ed_verify ed (ed_verifying_key ed sk) other (ed_sign ed sk signed) = Ok ()"
      using q(2) by (auto simp: manifest_verify_def m_def laws split: sum.splits)
    moreover have "other \<noteq> signed"
      using assms(2) other(1) signed q(1) unfolding manifest_text_def by metis
    ultimately show ?thesis by blast
  qed
  moreover have "manifest_verify ed write (m\<lparr>em_signature := sig\<rparr>) = Err ''invalid ed25519 signature length''"
    if "length sig \<noteq> 64" for sig
    using that by (simp add: manifest_verify_def m_def laws)
  ultimately show ?thesis using sign signed by blast
qed

theorem manifest_round_trip_witness:
  "\<exists>m. manifest_sign small_ed25519 small_writer sample_payload 7 = Ok m
     \<and> manifest_verify small_ed25519 small_writer m = Ok ()
     \<and> manifest_verify small_ed25519 small_writer (m\<lparr>em_signature := [1]\<rparr>)
         = Err ''invalid ed25519 signature length''"
proof -
  have "length [1 :: u8] \<noteq> 64" by simp
  then show ?thesis
    using manifest_round_trip [OF small_ed25519_laws small_writer_text, of sample_payload 7] by blast
qed

end
