(* ===== verification/Tests.thy ===== *)
theory Tests
  imports Registry_Spec Manifest Linux_Provider Apple_Provider Registry_Concurrent Hardware_Probe
begin

text \<open>
  The unit tests of the crate as statements about the model.  A test is the conjunction of
  its assertions after its calls; where it runs over a library, the skip map, Ed25519 or
  \<open>serde_json\<close>, it is shown to pass for every library that satisfies the contract, not only
  for the one the crate is linked with.  The test that races threads on first insertions is
  shown to pass under every schedule of its threads; the test that a changed manifest is
  rejected passes exactly when the signature of the original is not valid for the changed
  text, which the correctness laws of a signature scheme do not give.
\<close>

section \<open>Energy arithmetic\<close>

definition burst_model_subtracts_idle_power :: bool where
  "burst_model_subtracts_idle_power \<longleftrightarrow>
     baseline_burst_power_uw 8500000 3000000 = 5500000
     \<and> burst_energy_uj 8500000 3000000 2000000000 = 11000000"

definition burst_model_saturates_when_system_is_idle :: bool where
  "burst_model_saturates_when_system_is_idle \<longleftrightarrow>
     baseline_burst_power_uw 900000 1100000 = 0 \<and> burst_energy_uj 900000 1100000 10000000 = 0"

definition window_energy_handles_subsecond_windows :: bool where
  "window_energy_handles_subsecond_windows \<longleftrightarrow> window_energy_uj 5000000 250000000 = 1250000"

definition deterministic_attribution_splits_burst_energy :: bool where
  "deterministic_attribution_splits_burst_energy \<longleftrightarrow>
     deterministic_attribution_uj 8500000 3000000 1000000000 2000000000 = 5500000"

definition deterministic_attribution_returns_zero_when_idle :: bool where
  "deterministic_attribution_returns_zero_when_idle \<longleftrightarrow> deterministic_attribution_uj 8500000 3000000 0 0 = 0"

definition rapl_fallback_scales_by_cpu_share :: bool where
  "rapl_fallback_scales_by_cpu_share \<longleftrightarrow> rapl_fallback_uj 10000 250000 = 2500"

definition rapl_fallback_clamps_share :: bool where
  "rapl_fallback_clamps_share \<longleftrightarrow> rapl_fallback_uj 10000 5000000 = 10000"

definition nvml_window_energy_uses_product :: bool where
  "nvml_window_energy_uses_product \<longleftrightarrow> nvml_window_energy_uj 150000 100 = 15000000"

definition nvml_window_energy_saturates :: bool where
  "nvml_window_energy_saturates \<longleftrightarrow> nvml_window_energy_uj U64_MAX U64_MAX = U64_MAX"

theorem attribution_tests_pass:
  "burst_model_subtracts_idle_power \<and> burst_model_saturates_when_system_is_idle
   \<and> window_energy_handles_subsecond_windows \<and> deterministic_attribution_splits_burst_energy
   \<and> deterministic_attribution_returns_zero_when_idle \<and> rapl_fallback_scales_by_cpu_share
   \<and> rapl_fallback_clamps_share \<and> nvml_window_energy_uses_product \<and> nvml_window_energy_saturates"
  by (simp add: burst_model_subtracts_idle_power_def burst_model_saturates_when_system_is_idle_def
      window_energy_handles_subsecond_windows_def deterministic_attribution_splits_burst_energy_def
      deterministic_attribution_returns_zero_when_idle_def rapl_fallback_scales_by_cpu_share_def
      rapl_fallback_clamps_share_def nvml_window_energy_uses_product_def nvml_window_energy_saturates_def
      burst_energy_uj_def word_unat_eq_iff u64_nat unat_baseline_burst_power_uw unat_window_energy_uj
      unat_deterministic_attribution_uj unat_rapl_fallback_uj unat_nvml_window_energy_uj)

section \<open>The registry\<close>

definition registry_accumulates_per_pid_deltas :: "'t skip_map_ops \<Rightarrow> bool" where
  "registry_accumulates_per_pid_deltas sm =
     (let registry = registry_new sm;
          (registry, a) = add_micro_joules sm registry 1024 250;
          (registry, b) = add_micro_joules sm registry 1024 750;
          (registry, c) = add_micro_joules sm registry 2048 42
      in a = 250 \<and> b = 1000 \<and> c = 42
         \<and> registry_get sm registry 1024 = Some 1000 \<and> registry_get sm registry 2048 = Some 42
         \<and> total_micro_joules sm registry = 1042 \<and> registry_len sm registry = 2)"

definition registry_snapshot_is_sorted_by_pid :: "'t skip_map_ops \<Rightarrow> bool" where
  "registry_snapshot_is_sorted_by_pid sm =
     (let registry = registry_new sm;
          (registry, _) = add_micro_joules sm registry 9 10;
          (registry, _) = add_micro_joules sm registry 1 30;
          (registry, _) = add_micro_joules sm registry 4 20
      in snapshot sm registry = [(1, 30), (4, 20), (9, 10)])"

definition registry_remove_returns_final_total :: "'t skip_map_ops \<Rightarrow> bool" where
  "registry_remove_returns_final_total sm =
     (let registry = registry_new sm;
          (registry, _) = add_micro_joules sm registry 7 500;
          (registry, _) = add_micro_joules sm registry 7 500;
          (registry, removed) = registry_remove sm registry 7
      in removed = Some 1000 \<and> registry_get sm registry 7 = None \<and> registry_is_empty sm registry)"

definition registry_saturates_instead_of_wrapping :: "'t skip_map_ops \<Rightarrow> bool" where
  "registry_saturates_instead_of_wrapping sm =
     (let registry = registry_new sm;
          (registry, _) = add_micro_joules sm registry 1 (U64_MAX - 5);
          (registry, total_uj) = add_micro_joules sm registry 1 1000
      in total_uj = U64_MAX)"

definition global_registry_returns_the_same_handle :: "'t skip_map_ops \<Rightarrow> bool" where
  "global_registry_returns_the_same_handle sm =
     (let (cell, first) = global_registry sm None; (cell, second) = global_registry sm cell
      in first = second)"

context skip_map
begin

lemmas test_simps = registry_inv_new registry_inv_add registry_inv_remove registry_get_new
  registry_get_add add_micro_joules_return registry_remove_result

lemma registry_tests:
  "registry_accumulates_per_pid_deltas sm" "registry_snapshot_is_sorted_by_pid sm"
  "registry_remove_returns_final_total sm" "registry_saturates_instead_of_wrapping sm"
  "global_registry_returns_the_same_handle sm"
proof -
  let ?add = "\<lambda>r pid d. fst (add_micro_joules sm r pid d)" and ?new = "registry_new sm"
  have "registry_get sm (?add (?add (?add ?new 1024 250) 1024 750) 2048 42) = map_of [(1024, 1000), (2048, 42)]"
    by (simp add: test_simps sat_add_def fun_eq_iff)
  then have a: "snapshot sm (?add (?add (?add ?new 1024 250) 1024 750) 2048 42) = [(1024, 1000), (2048, 42)]"
    by (intro snapshot_eqI) (simp_all add: test_simps)
  show "registry_accumulates_per_pid_deltas sm"
    using registry_summary [OF _ a]
    by (simp add: registry_accumulates_per_pid_deltas_def split_beta Let_def test_simps sat_add_def)
  have "registry_get sm (?add (?add (?add ?new 9 10) 1 30) 4 20) = map_of [(1, 30), (4, 20), (9, 10)]"
    by (simp add: test_simps sat_add_def fun_eq_iff)
  then show "registry_snapshot_is_sorted_by_pid sm"
    unfolding registry_snapshot_is_sorted_by_pid_def Let_def split_beta
    by (intro snapshot_eqI) (simp_all add: test_simps)
  have "snapshot sm (fst (registry_remove sm (?add (?add ?new 7 500) 7 500) 7)) = []"
    by (intro snapshot_eqI) (simp_all add: test_simps)
  from registry_summary(2) [OF _ this] show "registry_remove_returns_final_total sm"
    by (simp add: registry_remove_returns_final_total_def split_beta Let_def test_simps sat_add_def)
  show "registry_saturates_instead_of_wrapping sm"
    by (simp add: registry_saturates_instead_of_wrapping_def split_beta Let_def test_simps sat_add_def)
  show "global_registry_returns_the_same_handle sm"
    by (simp add: global_registry_returns_the_same_handle_def global_registry_def)
qed

end

section \<open>The sampling loop\<close>

definition sampling_loop_constant_is_one_hundred_milliseconds :: bool where
  "sampling_loop_constant_is_one_hundred_milliseconds \<longleftrightarrow> SAMPLING_LOOP_INTERVAL_MS = 100"

definition sampling_loop_accumulates_delta_into_active_pids :: "'t skip_map_ops \<Rightarrow> bool" where
  "sampling_loop_accumulates_delta_into_active_pids sm =
     (let provider = fake_new [100, 200];
          (s, _) = sampling_run sm fake_ops (replicate 5 ()) (sampling_start provider (registry_new sm));
          registry = sl_registry s
      in 200000 \<le> total_micro_joules sm registry
         \<and> 0 < unwrap_or 0 (registry_get sm registry 100) \<and> 0 < unwrap_or 0 (registry_get sm registry 200)
         \<and> registry_get sm registry 0 = None)"

definition sampling_loop_buckets_to_pid_zero_when_no_active_pids :: "'t skip_map_ops \<Rightarrow> bool" where
  "sampling_loop_buckets_to_pid_zero_when_no_active_pids sm =
     (let provider = fake_new [];
          (s, _) = sampling_run sm fake_ops (replicate 3 ()) (sampling_start provider (registry_new sm))
      in 0 < unwrap_or 0 (registry_get sm (sl_registry s) 0))"

text \<open>One tick of the test provider after its first bills 0.1 J.\<close>

lemma fake_tick:
  assumes "previous_snapshot s = Some prev" and "snap_observed_at_ns prev = t * 100000000"
    and "fake_ticks (sl_provider s) = t" and "unat t < 1000"
  shows "sl_registry (fst (sampling_tick sm fake_ops () s)) = fan_out sm (fake_active_pids (sl_provider s)) 100000 (sl_registry s)"
    and "sl_provider (fst (sampling_tick sm fake_ops () s)) = (sl_provider s)\<lparr>fake_ticks := t + 1\<rparr>"
    and "\<exists>snap. previous_snapshot (fst (sampling_tick sm fake_ops () s)) = Some snap
      \<and> snap_observed_at_ns snap = (t + 1) * 100000000"
proof -
  have "unat (t * 100000000) = unat t * 100000000" "unat ((t + 1) * 100000000) = (unat t + 1) * 100000000"
    using assms(4) by (simp_all add: unat_word_ariths)
  then have gap: "sat_sub ((t + 1) * 100000000) (t * 100000000) = 100000000"
    by (intro word_eqI_unat) (simp add: unat_sat_sub)
  have uj: "window_energy_uj (baseline_burst_power_uw 2000000 1000000) 100000000 = 100000"
    by (simp add: word_unat_eq_iff unat_window_energy_uj unat_baseline_burst_power_uw)
  show "sl_registry (fst (sampling_tick sm fake_ops () s)) = fan_out sm (fake_active_pids (sl_provider s)) 100000 (sl_registry s)"
    "sl_provider (fst (sampling_tick sm fake_ops () s)) = (sl_provider s)\<lparr>fake_ticks := t + 1\<rparr>"
    "\<exists>snap. previous_snapshot (fst (sampling_tick sm fake_ops () s)) = Some snap
      \<and> snap_observed_at_ns snap = (t + 1) * 100000000"
    using gap uj by (simp_all add: sampling_tick_def fake_sample_power_state_def Let_def assms(1-3))
qed

lemma fake_ticks_run:
  "previous_snapshot s = Some prev \<Longrightarrow> snap_observed_at_ns prev = t * 100000000 \<Longrightarrow>
   fake_ticks (sl_provider s) = t \<Longrightarrow> unat t + n \<le> 1000 \<Longrightarrow>
   sl_registry (fst (sampling_run sm fake_ops (replicate n ()) s))
     = (fan_out sm (fake_active_pids (sl_provider s)) 100000 ^^ n) (sl_registry s)"
proof (induction n arbitrary: s prev t)
  case (Suc n)
  then have t: "unat t < 1000" by simp
  note T = fake_tick [OF Suc.prems(1-3) t, of sm]
  obtain s1 h where tick: "sampling_tick sm fake_ops () s = (s1, h)" by fastforce
  obtain snap where snap: "previous_snapshot s1 = Some snap" "snap_observed_at_ns snap = (t + 1) * 100000000"
    using T(3) by (auto simp: tick)
  have "unat (t + 1) + n \<le> 1000" using Suc.prems(4) t by (simp add: unat_word_ariths)
  moreover have "fake_ticks (sl_provider s1) = t + 1" using T(2) by (simp add: tick)
  ultimately have "sl_registry (fst (sampling_run sm fake_ops (replicate n ()) s1))
      = (fan_out sm (fake_active_pids (sl_provider s1)) 100000 ^^ n) (sl_registry s1)"
    using Suc.IH [OF snap] by blast
  then show ?case
    using T(1,2) by (simp add: tick split_beta funpow_swap1)
qed simp

lemma fake_run_registry:
  assumes "n < 1000"
  shows "sl_registry (fst (sampling_run sm fake_ops (replicate (Suc n) ()) (sampling_start (fake_new pids) r)))
    = (fan_out sm pids 100000 ^^ n) r"
proof -
  let ?s = "sampling_start (fake_new pids) r"
  obtain s1 h where tick: "sampling_tick sm fake_ops () ?s = (s1, h)" by fastforce
  then have s1: "sl_registry s1 = r" "sl_provider s1 = (fake_new pids)\<lparr>fake_ticks := 1\<rparr>"
    "\<exists>snap. previous_snapshot s1 = Some snap \<and> snap_observed_at_ns snap = 1 * 100000000"
    by (auto simp: sampling_tick_def sampling_start_def fake_sample_power_state_def fake_new_def Let_def)
  then obtain snap where "previous_snapshot s1 = Some snap" "snap_observed_at_ns snap = 1 * 100000000" by blast
  moreover have "fake_active_pids (sl_provider s1) = pids" "fake_ticks (sl_provider s1) = 1"
    by (simp_all add: s1 fake_new_def)
  ultimately show ?thesis
    using fake_ticks_run [of s1 snap 1 n sm] assms by (simp add: tick split_beta s1(1))
qed

context skip_map
begin

lemma sampling_loop_tests:
  "sampling_loop_accumulates_delta_into_active_pids sm"
  "sampling_loop_buckets_to_pid_zero_when_no_active_pids sm"
proof -
  let ?add = "\<lambda>r pid d. fst (add_micro_joules sm r pid d)"
  define five where "five = (\<lambda>r. ?add (?add r 100 50000) 200 50000)"
  have split: "fan_out sm [100, 200] 100000 = five"
    by (simp add: five_def fan_out_def Let_def sat_mul_def fun_eq_iff)
  let ?r = "five (five (five (five (registry_new sm))))"
  have run: "sl_registry (fst (sampling_run sm fake_ops (replicate 5 ()) (sampling_start (fake_new [100, 200])
      (registry_new sm)))) = ?r"
    using fake_run_registry [of 4 sm "[100, 200]" "registry_new sm"] by (simp add: split numeral_eq_Suc)
  have get: "registry_get sm ?r = map_of [(100, 200000), (200, 200000)]"
    by (simp add: five_def test_simps sat_add_def fun_eq_iff)
  have inv: "registry_inv sm sm_inv ?r" by (simp add: five_def test_simps)
  have "snapshot sm ?r = [(100, 200000), (200, 200000)]" by (rule snapshot_eqI [OF inv get]) simp
  note S = registry_summary(3) [OF inv this]
  show "sampling_loop_accumulates_delta_into_active_pids sm"
    unfolding sampling_loop_accumulates_delta_into_active_pids_def Let_def split_beta run
    by (simp add: S get sat_add_def)
  have "sl_registry (fst (sampling_run sm fake_ops (replicate 3 ()) (sampling_start (fake_new [])
      (registry_new sm)))) = ?add (?add (registry_new sm) 0 100000) 0 100000"
    using fake_run_registry [of 2 sm "[]" "registry_new sm"] by (simp add: fan_out_def numeral_eq_Suc)
  then show "sampling_loop_buckets_to_pid_zero_when_no_active_pids sm"
    unfolding sampling_loop_buckets_to_pid_zero_when_no_active_pids_def Let_def split_beta
    by (simp add: test_simps sat_add_def)
qed

end

section \<open>The Linux provider\<close>

definition linux_test_attribution :: "u64 \<Rightarrow> u64 \<Rightarrow> u64 \<Rightarrow> PidEnergyAttribution" where
  "linux_test_attribution start stop uj =
     \<lparr>attr_pid = 100, attr_window_start_ns = start, attr_window_end_ns = stop, attr_burst_power_uw = 5000000,
      attr_attributed_energy_uj = uj, attr_hardware_signature = ''NV-H100''\<rparr>"

definition sync_registry_drains_pending_attributions :: "'t skip_map_ops \<Rightarrow> bool" where
  "sync_registry_drains_pending_attributions sm =
     (let provider = linux_new ''NV-H100'';
          provider = linux_enqueue_attribution provider (linux_test_attribution 0 1000 5);
          provider = linux_enqueue_attribution provider (linux_test_attribution 1000 2000 7);
          (provider, registry, pushed) = linux_sync_registry sm provider (registry_new sm)
      in pushed = Ok 12 \<and> registry_get sm registry 100 = Some 12 \<and> linux_pending provider = [])"

definition correlate_fence_attributes_gpu_window_to_submitter :: "'t skip_map_ops \<Rightarrow> bool" where
  "correlate_fence_attributes_gpu_window_to_submitter sm =
     (let provider = mark_pid_active (linux_new ''NV-H100'') 4242;
          event = \<lparr>fence_submitter_pid = 4242, fence_submitted_at_ns = 1000000000,
                   fence_signaled_at_ns = 1200000000, fence_gpu_power_uw = 250000000\<rparr>;
          (provider, attribution) = correlate_fence provider event;
          (provider', registry, pushed) = linux_sync_registry sm provider (registry_new sm)
      in attr_pid attribution = 4242 \<and> attr_attributed_energy_uj attribution = 50000000
         \<and> attr_hardware_signature attribution = ''NV-H100''
         \<and> 4242 \<notin> set (active_pid_set provider)
         \<and> is_ok pushed \<and> registry_get sm registry 4242 = Some 50000000)"

definition active_pid_set_is_sorted_and_deduplicated :: bool where
  "active_pid_set_is_sorted_and_deduplicated =
     (let provider = linux_new ''NV-H100'';
          provider = mark_pid_active provider 9; provider = mark_pid_active provider 1;
          provider = mark_pid_active provider 9; provider = mark_pid_active provider 4;
          idle = mark_pid_idle provider 4
      in active_pid_set provider = [1, 4, 9] \<and> trait_active_pids (linux_ops btree_skip_map) provider = [1, 4, 9]
         \<and> active_pid_set idle = [1, 9])"

lemma active_pid_set_test: "active_pid_set_is_sorted_and_deduplicated"
  by (simp add: active_pid_set_is_sorted_and_deduplicated_def linux_new_def mark_pid_active_def mark_pid_idle_def
      active_pid_set_def bt_keys_def bt_new_def bt_get_def bt_remove_def Let_def sat_add_def)

context skip_map
begin

lemma linux_tests:
  "sync_registry_drains_pending_attributions sm" "correlate_fence_attributes_gpu_window_to_submitter sm"
proof -
  show "sync_registry_drains_pending_attributions sm"
    by (simp add: sync_registry_drains_pending_attributions_def linux_test_attribution_def linux_new_def
        linux_enqueue_attribution_def linux_sync_registry_def linux_pending_def Let_def split_beta
        test_simps sat_add_def)
  have "window_energy_uj 250000000 (sat_sub 1200000000 1000000000) = 50000000"
    by (simp add: word_unat_eq_iff unat_window_energy_uj unat_sat_sub)
  then show "correlate_fence_attributes_gpu_window_to_submitter sm"
    by (simp add: correlate_fence_attributes_gpu_window_to_submitter_def linux_new_def mark_pid_active_def
        correlate_fence_def release_fence_def linux_sync_registry_def active_pid_set_def bt_keys_def bt_new_def
        bt_get_def bt_remove_def Let_def split_beta test_simps sat_add_def sat_sub_def)
qed

end

section \<open>The Apple Silicon provider\<close>

definition channel_classifier_picks_up_gpu_and_ane :: bool where
  "channel_classifier_picks_up_gpu_and_ane \<longleftrightarrow>
     is_gpu_or_ane_energy_channel ''Energy Model'' ''GPU'' ''GPU 0''
     \<and> is_gpu_or_ane_energy_channel ''Energy Model'' ''ANE'' ''ANE 0''
     \<and> is_gpu_or_ane_energy_channel ''Energy Model'' ''compute'' ''GPU SLC''
     \<and> \<not> is_gpu_or_ane_energy_channel ''Foo'' ''GPU'' ''GPU 0''
     \<and> \<not> is_gpu_or_ane_energy_channel ''Energy Model'' ''cpu'' ''CPU 0''"

lemma channel_classifier_test: "channel_classifier_picks_up_gpu_and_ane"
  unfolding channel_classifier_picks_up_gpu_and_ane_def by code_simp

section \<open>The signer\<close>

definition fixture_attributions :: "PidEnergyAttribution list" where
  "fixture_attributions =
     [\<lparr>attr_pid = 4242, attr_window_start_ns = 100, attr_window_end_ns = 200, attr_burst_power_uw = 5500000,
       attr_attributed_energy_uj = 550, attr_hardware_signature = ''NV-H100-SXM5-SN-0001''\<rparr>,
      \<lparr>attr_pid = 7, attr_window_start_ns = 100, attr_window_end_ns = 200, attr_burst_power_uw = 1000000,
       attr_attributed_energy_uj = 100, attr_hardware_signature = ''NV-H100-SXM5-SN-0001''\<rparr>]"

definition fixture_identity :: HardwareIdentity where
  "fixture_identity = manual ''NV-H100-SXM5-SN-0001''"

type_synonym ('sk, 'vk) signer_test =
  "('sk, 'vk) ed25519 \<Rightarrow> AmalgafySealPayload serde_json \<Rightarrow> host \<Rightarrow> 'sk \<Rightarrow> bool"

definition signer_produces_a_verifiable_seal :: "('sk, 'vk) signer_test" where
  "signer_produces_a_verifiable_seal ed js h sk =
     (case seal ed js h (signer_new sk) fixture_attributions ''NV-H100-SXM5-SN-0001'' 650 fixture_identity of
        Inl _ \<Rightarrow> False
      | Inr sl \<Rightarrow>
          verify_seal ed js sl = Ok () \<and> pl_total_micro_joules (seal_payload sl) = 650
          \<and> pl_hardware_serial (seal_payload sl) = ''NV-H100-SXM5-SN-0001''
          \<and> pl_hardware_identity (seal_payload sl) = fixture_identity
          \<and> length (pl_attributions (seal_payload sl)) = 2 \<and> length (seal_signature sl) = 64)"

text \<open>The three tests that change a field of the payload of a seal and expect an error.\<close>

definition seal_verification_fails_after :: "(AmalgafySealPayload \<Rightarrow> AmalgafySealPayload) \<Rightarrow> ('sk, 'vk) signer_test" where
  "seal_verification_fails_after change ed js h sk =
     (case seal ed js h (signer_new sk) fixture_attributions ''NV-H100'' 650 fixture_identity of
        Inl _ \<Rightarrow> False
      | Inr sl \<Rightarrow> \<not> is_ok (verify_seal ed js (sl\<lparr>seal_payload := change (seal_payload sl)\<rparr>)))"

definition seal_verification_fails_after_tampering_with_total_joules :: "('sk, 'vk) signer_test" where
  "seal_verification_fails_after_tampering_with_total_joules =
     seal_verification_fails_after (\<lambda>p. p\<lparr>pl_total_micro_joules := 1\<rparr>)"

definition seal_verification_fails_after_swapping_hardware_serial :: "('sk, 'vk) signer_test" where
  "seal_verification_fails_after_swapping_hardware_serial =
     seal_verification_fails_after (\<lambda>p. p\<lparr>pl_hardware_serial := ''WRONG-SERIAL''\<rparr>)"

definition seal_verification_fails_after_swapping_hardware_identity :: "('sk, 'vk) signer_test" where
  "seal_verification_fails_after_swapping_hardware_identity =
     seal_verification_fails_after (\<lambda>p. p\<lparr>pl_hardware_identity := manual ''OTHER-MACHINE''\<rparr>)"

definition seal_is_order_independent_across_attribution_inputs :: "('sk, 'vk) signer_test" where
  "seal_is_order_independent_across_attribution_inputs ed js h sk =
     (case (seal ed js h (signer_new sk) fixture_attributions ''NV-H100-SXM5-SN-0001'' 650 fixture_identity,
            seal ed js h (signer_new sk) (rev fixture_attributions) ''NV-H100-SXM5-SN-0001'' 650 fixture_identity) of
        (Inr a, Inr b) \<Rightarrow>
          pl_attributions (seal_payload a) = pl_attributions (seal_payload b)
          \<and> map attr_pid (pl_attributions (seal_payload a)) = [7, 4242]
      | _ \<Rightarrow> False)"

lemma sorted_fixture: "sort_attributions fixture_attributions = rev fixture_attributions"
  "sort_attributions (rev fixture_attributions) = rev fixture_attributions"
  by (simp_all add: sort_attributions_def fixture_attributions_def)

lemma seal_verification_fails_afterI:
  assumes "ed25519_laws ed" and "json_laws js"
    and "\<And>p. pl_total_micro_joules p = 650 \<Longrightarrow> pl_hardware_serial p = ''NV-H100'' \<Longrightarrow>
      pl_hardware_identity p = fixture_identity \<Longrightarrow> change p \<noteq> p"
  shows "seal_verification_fails_after change ed js h sk"
proof -
  obtain sl where sl: "seal ed js h (signer_new sk) fixture_attributions ''NV-H100'' 650 fixture_identity = Ok sl"
    using seal_total [OF assms(2)] by blast
  have "change (seal_payload sl) \<noteq> seal_payload sl"
    by (rule assms(3)) (simp_all add: seal_ok(4) [OF sl])
  from changed_payload_rejected [OF assms(1,2) sl this] show ?thesis
    by (simp add: seal_verification_fails_after_def sl)
qed

theorem signer_tests_pass:
  assumes "ed25519_laws ed" and "json_laws js"
  shows "signer_produces_a_verifiable_seal ed js h sk
    \<and> seal_verification_fails_after_tampering_with_total_joules ed js h sk
    \<and> seal_verification_fails_after_swapping_hardware_serial ed js h sk
    \<and> seal_verification_fails_after_swapping_hardware_identity ed js h sk
    \<and> seal_is_order_independent_across_attribution_inputs ed js h sk"
proof (intro conjI)
  let ?seal = "\<lambda>as. seal ed js h (signer_new sk) as ''NV-H100-SXM5-SN-0001'' 650 fixture_identity"
  obtain a b where a: "?seal fixture_attributions = Ok a" and b: "?seal (rev fixture_attributions) = Ok b"
    using seal_total [OF assms(2)] by metis
  have "length (ed_sign ed sk m) = 64" for m using assms(1) by (simp add: ed25519_laws_def)
  then show "signer_produces_a_verifiable_seal ed js h sk"
    using seal_accepted [OF assms(1) a] unfolding signer_produces_a_verifiable_seal_def a
    by (simp add: seal_ok(2,4) [OF a] signer_new_def sorted_fixture) (simp add: fixture_attributions_def)
  show "seal_verification_fails_after_tampering_with_total_joules ed js h sk"
    "seal_verification_fails_after_swapping_hardware_serial ed js h sk"
    "seal_verification_fails_after_swapping_hardware_identity ed js h sk"
    unfolding seal_verification_fails_after_tampering_with_total_joules_def
      seal_verification_fails_after_swapping_hardware_serial_def
      seal_verification_fails_after_swapping_hardware_identity_def
    by (rule seal_verification_fails_afterI [OF assms],
        auto simp: fixture_identity_def manual_def dest: arg_cong [where f = pl_total_micro_joules]
          arg_cong [where f = pl_hardware_serial] arg_cong [where f = pl_hardware_identity])+
  show "seal_is_order_independent_across_attribution_inputs ed js h sk"
    by (simp add: seal_is_order_independent_across_attribution_inputs_def a b seal_ok(4) [OF a] seal_ok(4) [OF b]
        sorted_fixture) (simp add: fixture_attributions_def)
qed

text \<open>
  The test of canonical JSON, for both representations \<open>serde_json\<close> has of an object: sorted by
  key, and in order of insertion.
\<close>

definition canonical_json_sorts_object_keys :: "(json_entries \<Rightarrow> string \<Rightarrow> Value \<Rightarrow> json_entries) \<Rightarrow> bool" where
  "canonical_json_sorts_object_keys ins \<longleftrightarrow>
     canonical_json \<lparr>to_value = Ok, to_vec = json_writer, json_insert = ins\<rparr>
       (Object [(''z'', Number (PosInt 1)), (''a'', Number (PosInt 2)),
                (''m'', Object [(''y'', Number (PosInt 3)), (''b'', Number (PosInt 4))])])
     = Ok (map char_byte ''{\"a\":2,\"m\":{\"b\":4,\"y\":3},\"z\":1}'')"

lemma canonical_json_test: "canonical_json_sorts_object_keys bt_insert" "canonical_json_sorts_object_keys index_insert"
  by (simp_all add: canonical_json_sorts_object_keys_def canonical_json_def canonicalize_value.simps Let_def
      json_writer_def json_string_def json_escape_def show_nat.simps digit_char_def char_of_def bit_0)

section \<open>Manifest and identity\<close>

definition manifest_round_trips_a_signature :: "('sk, 'vk) ed25519 \<Rightarrow> manifest_writer \<Rightarrow> 'sk \<Rightarrow> bool" where
  "manifest_round_trips_a_signature ed write sk =
     (case manifest_sign ed write sample_payload sk of
        Inl _ \<Rightarrow> False
      | Inr m \<Rightarrow> manifest_verify ed write m = Ok ()
          \<and> em_signing_public_key m = ed_to_bytes ed (ed_verifying_key ed sk))"

lemma manifest_test:
  assumes "ed25519_laws ed" and "manifest_text write"
  shows "manifest_round_trips_a_signature ed write sk"
proof -
  obtain bytes where "write sample_payload = Ok bytes"
    using assms(2) unfolding manifest_text_def is_ok_iff by blast
  with assms(1) show ?thesis
    by (simp add: manifest_round_trips_a_signature_def manifest_sign_def manifest_verify_def ed25519_laws_def)
qed

definition manifest_verification_fails_after_mutation :: "('sk, 'vk) ed25519 \<Rightarrow> manifest_writer \<Rightarrow> 'sk \<Rightarrow> bool" where
  "manifest_verification_fails_after_mutation ed write sk =
     (case manifest_sign ed write sample_payload sk of
        Inl _ \<Rightarrow> False
      | Inr m \<Rightarrow>
          let payload = em_payload m;
              m = m\<lparr>em_payload := payload\<lparr>em_attributed_energy_uj := em_attributed_energy_uj payload + 1\<rparr>\<rparr>
          in \<not> is_ok (manifest_verify ed write m))"

definition mutated_payload :: EnergyManifestPayload where
  "mutated_payload = sample_payload\<lparr>em_attributed_energy_uj := 66\<rparr>"

lemma manifest_mutation_test:
  assumes "ed25519_laws ed" and "write sample_payload = Ok bytes" and "write mutated_payload = Ok bytes'"
  shows "manifest_verification_fails_after_mutation ed write sk
    \<longleftrightarrow> \<not> is_ok (ed_verify ed (ed_verifying_key ed sk) bytes' (ed_sign ed sk bytes))"
proof -
  have "sample_payload\<lparr>em_attributed_energy_uj := em_attributed_energy_uj sample_payload + 1\<rparr> = mutated_payload"
    by (simp add: mutated_payload_def sample_payload_def)
  then show ?thesis
    using assms by (simp add: manifest_verification_fails_after_mutation_def manifest_sign_def manifest_verify_def
        ed25519_laws_def is_ok_def split: sum.split)
qed

text \<open>It does pass with a scheme whose signatures carry a checksum of the message.\<close>

definition checksum_ed25519 :: "(u8, u8) ed25519" where
  "checksum_ed25519 = small_ed25519
     \<lparr>ed_sign := (\<lambda>sk m. sk # sum_list m # replicate 62 0),
      ed_verify := (\<lambda>vk m sig. if take 2 sig = [vk, sum_list m] then Ok () else Err ''signature error'')\<rparr>"

lemma checksum_ed25519_laws: "ed25519_laws checksum_ed25519"
  by (simp add: ed25519_laws_def checksum_ed25519_def small_ed25519_def)

lemma sum_bytes_payload:
  "\<exists>bytes bytes'. small_writer sample_payload = Ok bytes \<and> small_writer mutated_payload = Ok bytes'
     \<and> sum_list bytes' = sum_list bytes + 1"
  by (simp add: small_writer_def json_writer_def manifest_payload_value_def mutated_payload_def sample_payload_def
      json_string_def json_escape_def show_nat.simps digit_char_def char_of_def bit_0 char_byte_def)

lemma manifest_mutation_checksum: "manifest_verification_fails_after_mutation checksum_ed25519 small_writer 9"
proof -
  obtain bytes bytes' where "small_writer sample_payload = Ok bytes" "small_writer mutated_payload = Ok bytes'"
    "sum_list bytes' = sum_list bytes + 1"
    using sum_bytes_payload by blast
  then show ?thesis
    by (simp add: manifest_mutation_test [OF checksum_ed25519_laws]) (simp add: checksum_ed25519_def)
qed

text \<open>
  The derived writer and reader of identities are \<open>serde\<close>'s: the two functions are arguments, and
  the test passes when the reader recovers what the writer wrote.
\<close>

definition manual_identity_round_trips_through_serde ::
  "(HardwareIdentity \<Rightarrow> string result) \<Rightarrow> (string \<Rightarrow> HardwareIdentity result) \<Rightarrow> bool" where
  "manual_identity_round_trips_through_serde to_string from_str =
     (let i = manual ''NV-H100-SXM5-SN-0001''
      in hw_source i = Manual \<and> fingerprint i = ''NV-H100-SXM5-SN-0001''
         \<and> (case to_string i of Inl _ \<Rightarrow> False | Inr json \<Rightarrow> from_str json = Ok i))"

definition synthetic_identity_is_marked_as_unverifiable :: "host \<Rightarrow> bool" where
  "synthetic_identity_is_marked_as_unverifiable h =
     (let i = synthetic h ''no_probe''
      in hw_source i = Synthetic \<and> take 10 (fingerprint i) = ''synthetic:'')"

definition linux_probe_returns_a_real_or_synthetic_identity :: "'w platform \<Rightarrow> 'w platform_state \<Rightarrow> bool" where
  "linux_probe_returns_a_real_or_synthetic_identity pf s \<longleftrightarrow> fingerprint (snd (hw_probe Linux pf s)) \<noteq> []"

lemma linux_probe_test: "linux_probe_returns_a_real_or_synthetic_identity pf s"
  unfolding linux_probe_returns_a_real_or_synthetic_identity_def by (rule conjunct2 [OF hw_probe_linux])

lemma identity_serde_test:
  assumes "\<And>i. \<exists>json. to_string i = Ok json \<and> from_str json = Ok i"
  shows "manual_identity_round_trips_through_serde to_string from_str"
proof -
  obtain json where "to_string (manual ''NV-H100-SXM5-SN-0001'') = Ok json"
    "from_str json = Ok (manual ''NV-H100-SXM5-SN-0001'')"
    using assms by blast
  then show ?thesis by (simp add: manual_identity_round_trips_through_serde_def manual_def)
qed

lemma synthetic_identity_test: "synthetic_identity_is_marked_as_unverifiable h"
  by (simp add: synthetic_identity_is_marked_as_unverifiable_def synthetic_def)

section \<open>The racing test\<close>

text \<open>
  Sixteen threads, each accumulating one micro-joule on 200 processes in turn.  The barrier
  only restricts the schedules; the assertions hold after every schedule in which all
  threads have returned from all their calls.
\<close>

definition race_pid :: "nat \<Rightarrow> u32" where
  "race_pid i = of_nat i * 1000 + 1"

definition race_calls :: "(u32 \<times> u64) list" where
  "race_calls = concat (map (\<lambda>i. replicate 16 (race_pid i, 1)) [0..<200])"

definition concurrent_first_insert_does_not_lose_deltas :: "'t skip_map_ops \<Rightarrow> bool" where
  "concurrent_first_insert_does_not_lose_deltas sm \<longleftrightarrow>
     (\<forall>s. add_steps sm (init_system (registry_new sm) 16) s \<longrightarrow> (\<forall>p \<in> set (threads s). p = Idle) \<longrightarrow>
        mset (called s) = mset race_calls \<longrightarrow>
        total_micro_joules sm (reg s) = 3200
        \<and> (\<forall>i < 200. registry_get sm (reg s) (race_pid i) = Some 16))"

lemma race_pid_inject: "i < 200 \<Longrightarrow> j < 200 \<Longrightarrow> race_pid i = race_pid j \<longleftrightarrow> i = j"
proof -
  have "unat (race_pid k) = k * 1000 + 1" if "k < 200" for k
  proof -
    have "race_pid k = of_nat (k * 1000 + 1)" by (simp add: race_pid_def)
    then have "unat (race_pid k) = (k * 1000 + 1) mod 2 ^ 32" by (simp only: unat_of_nat) simp
    also have "\<dots> = k * 1000 + 1" using that by (intro mod_less) simp
    finally show ?thesis .
  qed
  then show "i < 200 \<Longrightarrow> j < 200 \<Longrightarrow> race_pid i = race_pid j \<longleftrightarrow> i = j" by (metis add_right_cancel mult_right_cancel zero_neq_numeral)
qed

lemma sum_for_race: "sum_for pid race_calls = (if pid \<in> race_pid ` {..<200} then 16 else 0)"
proof -
  have rep: "sum_for pid (replicate n (p, 1)) = (if p = pid then n else 0)" for n p
    by (induction n) simp_all
  have "sum_for pid (concat (map (\<lambda>i. replicate 16 (race_pid i, 1)) xs))
      = sum_list (map (\<lambda>i. if race_pid i = pid then 16 else 0) xs)" for xs
    by (induction xs) (simp_all add: rep)
  then have "sum_for pid race_calls = (\<Sum>i<200. if race_pid i = pid then 16 else 0)"
    by (simp add: race_calls_def interv_sum_list_conv_sum_set_nat atLeast0LessThan)
  also have "\<dots> = (if pid \<in> race_pid ` {..<200} then 16 else 0)"
  proof (cases "pid \<in> race_pid ` {..<200}")
    case True
    then obtain j where j: "j < 200" "pid = race_pid j" by auto
    have "(\<Sum>i<200. if race_pid i = pid then 16 else 0) = (\<Sum>i<200. if i = j then 16 else (0::nat))"
      by (rule sum.cong) (simp_all add: j race_pid_inject)
    with True j(1) show ?thesis by simp
  next
    case False
    then have "(\<Sum>i<200. if race_pid i = pid then 16 else 0) = (\<Sum>i<200::nat. (0::nat))"
      by (intro sum.cong) auto
    with False show ?thesis by simp
  qed
  finally show ?thesis .
qed

lemma race_test:
  assumes "skip_map sm sm_inv"
  shows "concurrent_first_insert_does_not_lose_deltas sm"
  unfolding concurrent_first_insert_does_not_lose_deltas_def
proof (intro allI impI conjI)
  fix s i
  assume run: "add_steps sm (init_system (registry_new sm) 16) s" and idle: "\<forall>p \<in> set (threads s). p = Idle"
    and calls: "mset (called s) = mset race_calls"
  note Q = quiescent_totals [OF assms skip_map.registry_inv_new [OF assms] run idle]
  have uj: "uj_of (registry_get sm (reg s) pid) = (if pid \<in> race_pid ` {..<200} then 16 else 0)" for pid
    using Q(2) [of pid] sum_for_mset_cong [OF calls, of pid]
    by (simp add: sum_for_race skip_map.registry_get_new [OF assms])
  have "(\<Sum>pid\<in>UNIV. uj_of (registry_get sm (reg s) pid)) = 16 * card (race_pid ` {..<200})"
    by (simp add: uj sum.If_cases)
  also have "card (race_pid ` {..<200}) = 200"
    by (subst card_image) (auto simp: inj_on_def race_pid_inject)
  finally have "unat (total_micro_joules sm (reg s)) = unat (3200 :: u64)"
    using skip_map.total_micro_joules_sum [OF assms Q(1)] by simp
  then show "total_micro_joules sm (reg s) = 3200" by (rule word_eqI_unat)
  show "registry_get sm (reg s) (race_pid i) = Some 16" if "i < 200"
  proof -
    have "uj_of (registry_get sm (reg s) (race_pid i)) = 16" using that by (simp add: uj)
    then show ?thesis
      by (cases "registry_get sm (reg s) (race_pid i)") (simp_all add: word_unat_eq_iff)
  qed
qed

text \<open>There are such schedules.\<close>

lemma race_has_a_schedule:
  "\<exists>s. add_steps sm (init_system (registry_new sm) 16) s \<and> (\<forall>p \<in> set (threads s). p = Idle)
     \<and> mset (called s) = mset race_calls"
proof -
  obtain s where "add_steps sm (init_system (registry_new sm) 16) s" "threads s = replicate 16 Idle" "called s = race_calls"
    using calls_have_a_schedule [of 16 sm "registry_new sm" race_calls] by auto
  then show ?thesis by (intro exI [of _ s]) simp
qed

section \<open>All tests over the registry\<close>

theorem registry_and_provider_tests_pass:
  assumes "skip_map sm sm_inv"
  shows "registry_accumulates_per_pid_deltas sm \<and> registry_snapshot_is_sorted_by_pid sm
    \<and> registry_remove_returns_final_total sm \<and> registry_saturates_instead_of_wrapping sm
    \<and> global_registry_returns_the_same_handle sm
    \<and> sampling_loop_accumulates_delta_into_active_pids sm
    \<and> sampling_loop_buckets_to_pid_zero_when_no_active_pids sm
    \<and> sync_registry_drains_pending_attributions sm
    \<and> correlate_fence_attributes_gpu_window_to_submitter sm"
  using skip_map.registry_tests [OF assms] skip_map.sampling_loop_tests [OF assms] skip_map.linux_tests [OF assms]
  by blast

lemma sampling_interval_test: "sampling_loop_constant_is_one_hundred_milliseconds"
  by (simp add: sampling_loop_constant_is_one_hundred_milliseconds_def SAMPLING_LOOP_INTERVAL_MS_def)

end
