(* ===== verification/Spec2Isabelle.thy ===== *)
theory Spec2Isabelle
  imports Registry_Readers Registry_Removal Sampling_Windows Linux_History Windows_Daemon Hardware_Probe Tests
begin

text \<open>
  \<^bold>\<open>Verification of the Micro-Joule Attribution Engine.\<close>

  The engine (crate \<open>mjae\<close>, under \<open>src/\<close>) measures the energy a machine uses, attributes it
  to processes and seals the result with a signature.  A provider per operating system
  reads a power or energy source (\<open>providers/linux.rs\<close>: the RAPL counter and GPU fences;
  \<open>providers/windows.rs\<close>: NVML; \<open>providers/apple_silicon.rs\<close>: IOReport).  The sampling loop of
  \<open>core/provider.rs\<close> turns consecutive samples into micro-joules with the arithmetic of
  \<open>core/attribution.rs\<close> and distributes them over the active processes in the lock-free
  registry of \<open>core/registry.rs\<close>.  \<open>core/hardware.rs\<close> finds a fingerprint of the machine, and
  \<open>core/signer.rs\<close> seals totals, attributions and fingerprint; \<open>core/manifest.rs\<close> is the older
  single-process form.

  \<^bold>\<open>Theories and what they show.\<close>

  \<^item> \<open>Prelude\<close>: machine integers as words, saturating and narrowing operations, results as
    sums, lemmas that read words as natural numbers (collection \<open>u64_nat\<close>).
  \<^item> \<open>Attribution\<close>: all functions of \<open>attribution.rs\<close> at their width.  When the 64-bit window
    formula is exact and by how much it undercounts otherwise; conservation of the
    deterministic model and of the RAPL fallback over processes that share a window;
    agreement of the three formulas where they overlap.
  \<^item> \<open>Ordered_Map\<close>: the contract \<open>ordered_map\<close> of the standard library's \<open>BTreeMap\<close> and its
    representation.
  \<^item> \<open>Registry\<close>: the registry over a skip map that is a parameter (record \<open>skip_map_ops\<close>,
    contract \<open>skip_map\<close>), its cells in an explicit store.  Every operation; the
    compare-and-swap loop terminates under any finite pattern of spurious failures; the
    registry provides the contract \<open>energy_registry\<close>, a map that accumulates with
    saturation; batches are order-independent; snapshot and total agree.
  \<^item> \<open>Registry_Spec\<close>: a finite map as the specification of the registry.  Any sequence of calls,
    accumulations, removals and queries, gets from the registry exactly the answers of the map.
  \<^item> \<open>Registry_Concurrent\<close>: any number of threads, one atomic action per step.
    Accumulations are linearizable and lose nothing; a failed compare-and-swap means
    another thread committed; a thread that runs alone finishes; a concurrent removal, on
    the other hand, can lose a delta: on every registry there is a schedule that does.
  \<^item> \<open>Registry_Readers\<close>: a walk over the table while other threads accumulate, its moves and
    loads interleaved with their steps.  It is sorted, misses no process tracked when it
    began, and every value and the total lie between those at its beginning and end.
  \<^item> \<open>Registry_Removal\<close>: removals racing with accumulations.  Under every schedule the energy
    reported for a process never exceeds what was accumulated; removals that do not meet an
    accumulation between its lookup and its commit lose nothing.
  \<^item> \<open>Provider\<close>: snapshots, attributions, the trait as a record of functions, one tick of
    the sampling loop, runs of ticks, the drain of pending attributions with its contract
    \<open>pending_provider\<close>.  The split of a tick is fair and conserving, a run keeps the books,
    a failed sample is isolated.
  \<^item> \<open>Ledger\<close>: the specification of the loop, a natural number of micro-joules per process
    and exact energies, and that runs of the loop implement it process by process.
  \<^item> \<open>Sampling_Windows\<close>: the windows of the heartbeats tile the time between the samples.
  \<^item> \<open>Host\<close>: decimal numbers, trimming, paths, and the record of what the host answers.
  \<^item> \<open>Linux_Provider\<close>: the whole provider.  The fence table refines a counter of outstanding
    fences; fences reach the registry exactly once; the RAPL difference is the distance
    modulo the counter's range; ticks and runs bill at most what the counter recorded.
  \<^item> \<open>Foreign\<close>: C strings, lossy UTF-8 decoding, CoreFoundation as a parameter with its
    ownership rule, and the scopes that run a \<open>Drop\<close> implementation.
  \<^item> \<open>Hardware\<close>, \<open>Hardware_Probe\<close>: identities, the probes of the three systems and their
    selection.  The Linux probe yields the first usable candidate and never an empty
    fingerprint; when synthetic identities collide; which references the macOS probe
    gives back, and the two cases in which it keeps the service handle.
  \<^item> \<open>Windows_Provider\<close>: the whole provider over NVML as a parameter.  The process query is a
    partial function; the exact condition under which it returns, from any state of the
    buffer, is a theorem, and otherwise it diverges.  Both ways to attribute a window
    conserve its energy; a failed initialisation of NVML is permanent.
  \<^item> \<open>Windows_Run\<close>: the sampling loop over that provider, with divergence and panics as
    values: it implements the ledger while the processes fit, and hangs when they do not.
  \<^item> \<open>Apple_Provider\<close>: the whole provider over IOReport as a parameter acting on a foreign
    world.  The channel classifier is prefix and substring matching; no history of samples
    leaks a reference; runs bill at most the nanojoules that were reported; the debug
    assertion never fires.
  \<^item> \<open>Canonical_Json\<close>: values, canonicalization over any map implementation (contract
    \<open>json_map\<close>), canonical bytes.  Canonical forms decide equality of content.
  \<^item> \<open>Json_Text\<close>: JSON text of values without floating-point numbers and that it determines
    the value, the instance of the assumption on the crate's writer.
  \<^item> \<open>Signer\<close>, \<open>Manifest\<close>: sealing, signing and verifying over Ed25519 and the derived
    serialization as parameters.  Seals verify, changed payloads are rejected, a seal that
    verifies without having been sealed contains a forged signature, order does not matter
    unless keys tie.
  \<^item> \<open>Daemon\<close>, \<open>Windows_Daemon\<close>: histories of the calls on one provider and one registry, loops,
    events, attributed windows and synchronisations in any order, with the contract \<open>daemon\<close>
    that the three providers satisfy.  All energy measured, and nothing else, ends up in
    the seal.
  \<^item> \<open>Linux_History\<close>: whole histories of a Linux daemon.  Over any number of loops on one
    provider, with failed reads in between, all heartbeats together bill at most what the
    counter recorded, and the seal carries them and the queued attributions.
  \<^item> \<open>Tests\<close>: the crate's unit tests as statements about the model; they pass for every
    library that satisfies the contracts, the racing test under every schedule.
  \<^item> This theory: the path from the RAPL counter, and from the ledger specification, through
    the loop and the registry to a verified seal.

  \<^bold>\<open>Conventions.\<close>  A struct is a record whose fields carry a short prefix, an enum a
  datatype, a method a function from the old state to the new state and the result.  An
  \<open>anyhow::Result\<close> is a sum with the displayed error text on the left.  Integers are words
  of their width; where the source uses plain arithmetic that could overflow, a lemma
  shows that it does not.  What a call reads from outside, files, environment, clock, NVML,
  is an argument; foreign functions with effects act on a state \<open>'w\<close>.  Loops over
  collections are structural recursions; the two loops without a structural bound are the
  compare-and-swap loop, a function with a measure on the pending spurious failures, and
  the NVML query, a \<^theory_text>\<open>partial_function (option)\<close>.  No fuel is used anywhere.  A run of the
  sampling loop, which only ends when it is dropped, is the list of what its ticks read.

  \<^bold>\<open>Libraries.\<close>  The skip map, NVML, CoreFoundation, IOKit, IOReport, \<open>serde_json\<close> and
  Ed25519 are outside the repository: each is a record of functions, with the behaviour
  the code relies on as a named predicate or locale.  Every such assumption is satisfied
  by a small instance, which the witnesses use.  The growth of \<open>Vec::reserve\<close> follows the
  standard library.

  \<^bold>\<open>Not modelled.\<close>  Weak memory (the registry's steps are sequentially consistent and the
  skip map's operations atomic), the pacing of the loop by the tokio timer, log lines other
  than the heartbeat, allocation failure, the derived readers and writers of \<open>serde\<close> beyond the
  layout of the sealed and signed payloads (no code of the repository reads a seal back), the
  text of floating-point numbers (no payload has any), the \<open>extern\<close> declarations beyond the entry
  points the libraries' records have, and module declarations and re-exports.
\<close>

section \<open>From the energy counter to the sealed total\<close>

text \<open>What a run of the sampling loop from an empty registry leaves in it.\<close>

lemma run_total:
  assumes "skip_map sm sm_inv" and "list_all pids_fit (snd (sampling_run sm ops es (sampling_start p (registry_new sm))))"
    and "sum_list (map heartbeat_uj (snd (sampling_run sm ops es (sampling_start p (registry_new sm))))) \<le> u64_max"
  shows "unat (total_micro_joules sm (sl_registry (fst (sampling_run sm ops es (sampling_start p (registry_new sm))))))
    = sum_list (map heartbeat_uj (snd (sampling_run sm ops es (sampling_start p (registry_new sm)))))"
proof -
  let ?s = "sampling_start p (registry_new sm)"
  have inv: "registry_inv sm sm_inv (sl_registry ?s)"
    using skip_map.registry_inv_new [OF assms(1)] by (simp add: sampling_start_def)
  have zero: "registry_uj sm (sl_registry ?s) = 0"
    using registry_uj_new [OF assms(1)] by (simp add: sampling_start_def)
  have "registry_uj sm (sl_registry (fst (sampling_run sm ops es ?s)))
      = sum_list (map heartbeat_uj (snd (sampling_run sm ops es ?s)))"
    using skip_map.sampling_run_accounts [OF assms(1) inv assms(2)] assms(3) by (simp add: zero)
  then show ?thesis
    using total_is_registry_uj [OF assms(1) skip_map.sampling_run_inv [OF assms(1) inv], of ops es] assms(3)
    by simp
qed

section \<open>Properties\<close>

text \<open>
  From the counter to the seal: run the sampling loop over a new Linux provider and an
  empty registry, on any sequence of ticks that read a RAPL counter or fail to, and seal the
  registry's total.  The seal is produced and verifies, the total it carries is exactly the
  energy the heartbeats reported, and it is at most what the counter recorded between its
  first and last reading, across wraps.
\<close>

theorem sealed_total_bounded_by_rapl:
  assumes "skip_map sm sm_inv" and "ed25519_laws ed" and "json_laws js"
    and "range_max \<noteq> U64_MAX" and "list_all (rapl_tick range_max) ticks"
    and "recorded_from range_max None (readings ticks) \<le> u64_max"
    and "sampling_run sm (linux_ops sm) (map fst ticks) (sampling_start (linux_new sig) (registry_new sm)) = (s, hs)"
  shows "\<exists>sl. seal ed js h signer as serial (total_micro_joules sm (sl_registry s)) i = Ok sl
    \<and> verify_seal ed js sl = Ok ()
    \<and> unat (pl_total_micro_joules (seal_payload sl)) = sum_list (map heartbeat_uj hs)
    \<and> unat (pl_total_micro_joules (seal_payload sl)) \<le> recorded_from range_max None (readings ticks)"
proof -
  let ?run = "sampling_run sm (linux_ops sm) (map fst ticks) (sampling_start (linux_new sig) (registry_new sm))"
  have billed: "sum_list (map heartbeat_uj hs) \<le> recorded_from range_max None (readings ticks)"
    using linux_run_bound [OF assms(4,5), of sm sig "registry_new sm"] assms(7) by simp
  have "length (active_pid_set (sl_provider (sampling_start (linux_new sig) (registry_new sm)))) \<le> u64_max"
    by (simp add: sampling_start_def linux_new_def active_pid_set_def bt_keys_def bt_new_def)
  then have "list_all pids_fit (snd ?run)" by (rule linux_run_pids_fit)
  moreover have "sum_list (map heartbeat_uj (snd ?run)) \<le> u64_max"
    using billed assms(6,7) by simp
  ultimately have total: "unat (total_micro_joules sm (sl_registry s)) = sum_list (map heartbeat_uj hs)"
    using run_total [OF assms(1), of "linux_ops sm" "map fst ticks" "linux_new sig"] assms(7)
    by simp
  obtain sl where sl: "seal ed js h signer as serial (total_micro_joules sm (sl_registry s)) i = Ok sl"
    using seal_total [OF assms(3)] by blast
  then show ?thesis
    using seal_accepted [OF assms(2) sl] total billed by (simp add: seal_ok(4) [OF sl])
qed

theorem sealed_total_bounded_by_rapl_witness:
  "\<exists>sl. seal small_ed25519 small_json (bare_host 1) (signer_new 3) [] ''CPU''
       (total_micro_joules btree_skip_map (sl_registry (fst (sampling_run btree_skip_map (linux_ops btree_skip_map)
         [sysfs_host 990 999 1000000000, bare_sysfs, sysfs_host 15 999 1200000000]
         (sampling_start (linux_new ''CPU'') (registry_new btree_skip_map)))))) (manual ''CPU'') = Ok sl
     \<and> verify_seal small_ed25519 small_json sl = Ok ()
     \<and> unat (pl_total_micro_joules (seal_payload sl)) \<le> 25"
proof -
  let ?ticks = "[(sysfs_host 990 999 1000000000, Some 990), (bare_sysfs, None), (sysfs_host 15 999 1200000000, Some 15)]"
  have "(999 :: u64) \<noteq> U64_MAX" by simp
  moreover have "list_all (rapl_tick 999) ?ticks" by simp
  moreover have "recorded_from 999 None (readings ?ticks) \<le> u64_max"
    by (simp add: counter_distance_def List.map_filter_simps)
  ultimately show ?thesis
    using sealed_total_bounded_by_rapl [OF btree.skip_map_axioms small_ed25519_laws small_json_laws _ _ _
        surjective_pairing, where range_max = 999 and ticks = ?ticks and sig = "''CPU''" and h = "bare_host 1"
          and signer = "signer_new 3" and as = "[]" and serial = "''CPU''" and i = "manual ''CPU''"]
    by (simp add: counter_distance_def List.map_filter_simps) blast
qed

text \<open>
  C7.  From the specification to the seal, for every provider: run the sampling loop over any
  provider and an empty registry and seal the registry's total.  If the observed powers and
  the specified total are within their limits, the seal is produced and verifies, and the
  total it carries is the sum over all processes of the ledger that the specification
  computes from the observed samples.
\<close>

theorem sealed_total_is_ledger_total:
  assumes "skip_map sm sm_inv" and "ed25519_laws ed" and "json_laws js"
    and "list_all within_limits (observations ops es p)"
    and "fold ledger_step (observations ops es p) ((\<lambda>_. 0), None) = (l, prev)"
    and "ledger_total l \<le> u64_max"
  shows "\<exists>sl. seal ed js h signer as serial
      (total_micro_joules sm (sl_registry (fst (sampling_run sm ops es (sampling_start p (registry_new sm)))))) i = Ok sl
    \<and> verify_seal ed js sl = Ok ()
    \<and> unat (pl_total_micro_joules (seal_payload sl)) = ledger_total l"
proof -
  let ?s = "sampling_start p (registry_new sm)"
  let ?r = "sl_registry (fst (sampling_run sm ops es ?s))"
  have inv: "registry_inv sm sm_inv (sl_registry ?s)"
    using skip_map.registry_inv_new [OF assms(1)] by (simp add: sampling_start_def)
  have start: "ledger_abs sm ?s = ((\<lambda>_. 0), None)" "sl_provider ?s = p"
    using skip_map.new_get [OF assms(1)]
    by (auto simp: sampling_start_def ledger_abs_def ledger_of_def registry_get_def registry_new_def)
  have "ledger_abs sm (fst (sampling_run sm ops es ?s)) = (l, prev)"
    using skip_map.sampling_run_refines [OF assms(1) inv, of ops es] assms(4-6) by (simp add: start)
  then have "ledger_of sm ?r = l" by (simp add: ledger_abs_def)
  then have "registry_uj sm ?r = ledger_total l"
    by (auto simp: registry_uj_def ledger_total_def ledger_of_def)
  then have total: "unat (total_micro_joules sm ?r) = ledger_total l"
    using total_is_registry_uj [OF assms(1) skip_map.sampling_run_inv [OF assms(1) inv], of ops es] assms(6) by simp
  obtain sl where sl: "seal ed js h signer as serial (total_micro_joules sm ?r) i = Ok sl"
    using seal_total [OF assms(3)] by blast
  then show ?thesis using seal_accepted [OF assms(2) sl] total by (simp add: seal_ok(4) [OF sl])
qed

theorem sealed_total_is_ledger_total_witness:
  "\<exists>sl. seal small_ed25519 small_json (bare_host 1) (signer_new 3) [] ''FAKE''
      (total_micro_joules btree_skip_map (sl_registry (fst (sampling_run btree_skip_map btree_fake [(), (), ()]
        (sampling_start (fake_new [100, 200]) (registry_new btree_skip_map)))))) (manual ''FAKE'') = Ok sl
    \<and> verify_seal small_ed25519 small_json sl = Ok ()
    \<and> unat (pl_total_micro_joules (seal_payload sl)) = 200000"
proof -
  obtain l prev where spec: "fold ledger_step (observations btree_fake [(), (), ()] (fake_new [100, 200]))
      ((\<lambda>_. 0), None) = (l, prev)"
    by fastforce
  have "l = bill [100, 200] 100000 (bill [100, 200] 100000 (\<lambda>_. 0))"
    using spec unfolding fake_observations by (simp add: exact_uj_def burst_uw_def)
  moreover have "ledger_total (\<lambda>_. 0) = 0" by (simp add: ledger_total_def)
  ultimately have l: "ledger_total l = 200000" by (simp add: ledger_total_bill)
  have limits: "list_all within_limits (observations btree_fake [(), (), ()] (fake_new [100, 200]))"
    unfolding fake_observations by (simp add: burst_uw_def)
  show ?thesis
    using sealed_total_is_ledger_total [OF btree.skip_map_axioms small_ed25519_laws small_json_laws limits spec] l
    by simp
qed

end
